theory Spec2Isabelle
  imports Main
begin

section \<open>The entity model of \<^verbatim>\<open>models.py\<close>\<close>

text \<open>
  \<^verbatim>\<open>Dog(id, name, breed)\<close> and \<^verbatim>\<open>Breed(id, name)\<close> with its list \<^verbatim>\<open>dogs\<close>, and the
  aggregate \<^verbatim>\<open>DogHouse\<close> with its lists \<^verbatim>\<open>breeds\<close> and \<^verbatim>\<open>dogs\<close>. Field names are
  prefixed with the class name where two classes use the same one. The types are those of
  the annotations of the constructors (\<^verbatim>\<open>id: int, name: str, breed: int\<close>); Python's
  integers are unbounded, hence \<open>int\<close>.

  A \<^verbatim>\<open>Dog\<close> is never mutated after its creation, and every \<^verbatim>\<open>Breed\<close> object is held by
  exactly one position of \<^verbatim>\<open>DogHouse.breeds\<close> (each \<^verbatim>\<open>append\<close> stores a fresh object), so
  values in lists describe the heap exactly: mutating a breed object is replacing the
  element at its position.
\<close>

record dog =
  dog_id :: int
  dog_name :: string
  dog_breed :: int

record breed =
  breed_id :: int
  breed_name :: string
  breed_dogs :: "dog list"

record doghouse =
  breeds :: "breed list"
  dogs :: "dog list"

text \<open>\<^verbatim>\<open>Dog.__init__\<close>, \<^verbatim>\<open>Breed.__init__\<close> (the dog list starts empty), \<^verbatim>\<open>DogHouse.__init__\<close>.\<close>

definition Dog :: "int \<Rightarrow> string \<Rightarrow> int \<Rightarrow> dog" where
  "Dog i n b = \<lparr>dog_id = i, dog_name = n, dog_breed = b\<rparr>"

definition Breed :: "int \<Rightarrow> string \<Rightarrow> breed" where
  "Breed i n = \<lparr>breed_id = i, breed_name = n, breed_dogs = []\<rparr>"

definition DogHouse :: doghouse where
  "DogHouse = \<lparr>breeds = [], dogs = []\<rparr>"

text \<open>\<^verbatim>\<open>Breed.add_dog\<close> appends to the breed's list; \<^verbatim>\<open>Breed.dogs_count\<close> is its length.\<close>

definition add_dog :: "breed \<Rightarrow> dog \<Rightarrow> breed" where
  "add_dog b d = b\<lparr>breed_dogs := breed_dogs b @ [d]\<rparr>"

definition dogs_count :: "breed \<Rightarrow> int" where
  "dogs_count b = int (length (breed_dogs b))"

section \<open>The transport\<close>

text \<open>
  \<^verbatim>\<open>get\<close>, \<^verbatim>\<open>post\<close> and \<^verbatim>\<open>BASE_URL\<close> are imported from \<^verbatim>\<open>utils\<close>, which is not part of
  the sources: they are parameters of the model. A call \<^verbatim>\<open>get(url, token)\<close> is a round trip
  to a server whose state \<open>'w\<close> it may change, and it returns the parsed response. The
  loaders catch nothing, so a call that raises ends the run with the transport's own
  exception; the model describes the runs in which every call returns.

  A record of a page is a dictionary. The loaders read \<^verbatim>\<open>["id"]\<close> and \<^verbatim>\<open>["name"]\<close> from
  it, and the dog loader reads \<^verbatim>\<open>.get("breed")\<close>, which is \<^verbatim>\<open>None\<close> when the key is
  absent: \<open>item_breed\<close> is optional, the other two keys are there. A response is a
  dictionary read with \<^verbatim>\<open>.get('count', 0)\<close>, \<^verbatim>\<open>.get('results', [])\<close> and
  \<^verbatim>\<open>.get('next', None)\<close>: each key may be absent (\<open>None\<close>). For \<^verbatim>\<open>next\<close>, \<open>None\<close> is also
  the JSON \<^verbatim>\<open>null\<close>.
\<close>

record item =
  item_id :: int
  item_name :: string
  item_breed :: "int option"

record response =
  count :: "int option"
  results :: "item list option"
  nxt :: "string option"

type_synonym 'w transport_get = "'w \<Rightarrow> string \<Rightarrow> string \<Rightarrow> response \<times> 'w"

text \<open>
  The state of a run outside the aggregate: the server's state and the URLs requested
  with \<^verbatim>\<open>get\<close> so far, in order. The list of requests is what the claims about the
  requests of a loader speak of; no function of the model reads it.
\<close>

record 'w io =
  world :: 'w
  requests :: "string list"

definition get_call :: "'w transport_get \<Rightarrow> string \<Rightarrow> string \<Rightarrow> 'w io \<Rightarrow> response \<times> 'w io" where
  "get_call get url token s =
     (case get (world s) url token of
        (r, w') \<Rightarrow> (r, \<lparr>world = w', requests = requests s @ [url]\<rparr>))"

text \<open>\<^verbatim>\<open>response.get('count', 0)\<close> and \<^verbatim>\<open>response.get('results', [])\<close>.\<close>

definition count_or_0 :: "response \<Rightarrow> int" where
  "count_or_0 r = (case count r of None \<Rightarrow> 0 | Some c \<Rightarrow> c)"

definition results_or_empty :: "response \<Rightarrow> item list" where
  "results_or_empty r = (case results r of None \<Rightarrow> [] | Some xs \<Rightarrow> xs)"

text \<open>
  The truth value of the loop variable in \<^verbatim>\<open>while url:\<close>: \<^verbatim>\<open>None\<close> and the empty string
  are false, every other string is true.
\<close>

definition truthy :: "string option \<Rightarrow> bool" where
  "truthy u = (case u of None \<Rightarrow> False | Some s \<Rightarrow> s \<noteq> [])"

text \<open>Python's \<^verbatim>\<open>str\<close> of an integer, as the f-string \<^verbatim>\<open>{limit_breeds}\<close> formats it.\<close>

definition digit_char :: "nat \<Rightarrow> char" where
  "digit_char d = ''0123456789'' ! d"

fun str_nat :: "nat \<Rightarrow> string" where
  "str_nat n = (if n < 10 then [digit_char n] else str_nat (n div 10) @ [digit_char (n mod 10)])"

declare str_nat.simps [simp del]

definition str_int :: "int \<Rightarrow> string" where
  "str_int i = (if i < 0 then CHR ''-'' # str_nat (nat (- i)) else str_nat (nat i))"

section \<open>Loading\<close>

subsection \<open>Breeds\<close>

text \<open>
  The body of \<^verbatim>\<open>for breed_data in response.get('results', [])\<close>: a new \<^verbatim>\<open>Breed\<close> is
  appended to \<^verbatim>\<open>self.breeds\<close>, whatever is there already.
\<close>

definition add_breed_data :: "doghouse \<Rightarrow> item \<Rightarrow> doghouse" where
  "add_breed_data self breed_data =
     self\<lparr>breeds := breeds self @ [Breed (item_id breed_data) (item_name breed_data)]\<rparr>"

text \<open>
  \<^verbatim>\<open>while url_breeds:\<close> of \<^verbatim>\<open>_get_breeds_data\<close>. The loop runs as long as the server
  hands out a next page, so it is a partial function: \<open>None\<close> is a run that never leaves
  the loop.
\<close>

partial_function (option) breeds_loop ::
  "'w transport_get \<Rightarrow> string \<Rightarrow> string option \<Rightarrow> doghouse \<Rightarrow> 'w io \<Rightarrow> (doghouse \<times> 'w io) option"
where
  "breeds_loop get token url_breeds self s =
     (case url_breeds of
        None \<Rightarrow> Some (self, s)
      | Some url \<Rightarrow>
          if url = [] then Some (self, s)
          else (case get_call get url token s of
                  (response, s') \<Rightarrow>
                    breeds_loop get token (nxt response)
                      (foldl add_breed_data self (results_or_empty response)) s'))"

declare breeds_loop.simps [code]

definition breeds_url :: "string \<Rightarrow> int \<Rightarrow> string" where
  "breeds_url base limit = base @ ''/api/v1/breeds/?limit='' @ str_int limit"

definition get_breeds_data ::
  "'w transport_get \<Rightarrow> string \<Rightarrow> string \<Rightarrow> doghouse \<Rightarrow> 'w io \<Rightarrow> (doghouse \<times> 'w io) option"
where
  "get_breeds_data get base token self s =
     (case get_call get (base @ ''/api/v1/breeds/?limit=1'') token s of
        (response, s') \<Rightarrow>
          (let total_breeds = count_or_0 response;
               limit_breeds = min 100 total_breeds;
               url_breeds = breeds_url base limit_breeds
           in breeds_loop get token (Some url_breeds) self s'))"

subsection \<open>Dogs\<close>

text \<open>
  \<^verbatim>\<open>next((b for b in self.breeds if b.id == breed_id), None)\<close> is the first breed of the
  list with that id, and \<^verbatim>\<open>breed.add_dog(dog)\<close> changes that object: \<open>add_dog_first\<close>
  replaces the first breed with the id. A \<^verbatim>\<open>Breed\<close> object is always true in
  \<^verbatim>\<open>if breed:\<close> (the class defines neither \<^verbatim>\<open>__bool__\<close> nor \<^verbatim>\<open>__len__\<close>), so the test
  fails only for \<^verbatim>\<open>None\<close>.
\<close>

definition find_breed :: "int option \<Rightarrow> breed list \<Rightarrow> breed option" where
  "find_breed bid bs = find (\<lambda>b. Some (breed_id b) = bid) bs"

primrec add_dog_first :: "int option \<Rightarrow> dog \<Rightarrow> breed list \<Rightarrow> breed list" where
  "add_dog_first bid d [] = []"
| "add_dog_first bid d (b # bs) =
     (if Some (breed_id b) = bid then add_dog b d # bs else b # add_dog_first bid d bs)"

definition add_dog_data :: "doghouse \<Rightarrow> item \<Rightarrow> doghouse" where
  "add_dog_data self dog_data =
     (let bid = item_breed dog_data in
      case find_breed bid (breeds self) of
        None \<Rightarrow> self
      | Some b \<Rightarrow>
          (let d = Dog (item_id dog_data) (item_name dog_data) (breed_id b)
           in \<lparr>breeds = add_dog_first bid d (breeds self), dogs = dogs self @ [d]\<rparr>))"

partial_function (option) dogs_loop ::
  "'w transport_get \<Rightarrow> string \<Rightarrow> string option \<Rightarrow> doghouse \<Rightarrow> 'w io \<Rightarrow> (doghouse \<times> 'w io) option"
where
  "dogs_loop get token url_dogs self s =
     (case url_dogs of
        None \<Rightarrow> Some (self, s)
      | Some url \<Rightarrow>
          if url = [] then Some (self, s)
          else (case get_call get url token s of
                  (response, s') \<Rightarrow>
                    dogs_loop get token (nxt response)
                      (foldl add_dog_data self (results_or_empty response)) s'))"

declare dogs_loop.simps [code]

definition get_dogs_data ::
  "'w transport_get \<Rightarrow> string \<Rightarrow> string \<Rightarrow> doghouse \<Rightarrow> 'w io \<Rightarrow> (doghouse \<times> 'w io) option"
where
  "get_dogs_data get base token self s =
     dogs_loop get token (Some (base @ ''/api/v1/dogs/'')) self s"

text \<open>\<^verbatim>\<open>get_data\<close>: the breeds, then the dogs.\<close>

definition get_data ::
  "'w transport_get \<Rightarrow> string \<Rightarrow> string \<Rightarrow> doghouse \<Rightarrow> 'w io \<Rightarrow> (doghouse \<times> 'w io) option"
where
  "get_data get base token self s =
     (case get_breeds_data get base token self s of
        None \<Rightarrow> None
      | Some (self', s') \<Rightarrow> get_dogs_data get base token self' s')"

section \<open>Statistics\<close>

datatype error = AttributeError | IndexError

definition get_total_breeds :: "doghouse \<Rightarrow> int" where
  "get_total_breeds self = int (length (breeds self))"

definition get_total_dogs :: "doghouse \<Rightarrow> int" where
  "get_total_dogs self = int (length (dogs self))"

text \<open>
  Python's \<^verbatim>\<open>max(iterable, key=f)\<close> on a sequence with first element \<open>x\<close>: the best
  element so far is replaced only by one whose key is strictly greater.
\<close>

definition py_max :: "('a \<Rightarrow> int) \<Rightarrow> 'a \<Rightarrow> 'a list \<Rightarrow> 'a" where
  "py_max key x xs = foldl (\<lambda>best y. if key best < key y then y else best) x xs"

text \<open>\<^verbatim>\<open>get_common_breed\<close> returns \<^verbatim>\<open>None\<close> when there are no breeds.\<close>

definition get_common_breed :: "doghouse \<Rightarrow> breed option" where
  "get_common_breed self =
     (case breeds self of [] \<Rightarrow> None | b # bs \<Rightarrow> Some (py_max dogs_count b bs))"

text \<open>
  \<^verbatim>\<open>Counter(names)\<close> is a dictionary, which keeps its keys in the order of their first
  insertion: an association list. Counting an element adds one to its entry, or appends
  a new entry with count one. \<^verbatim>\<open>most_common(1)\<close> is \<^verbatim>\<open>heapq.nlargest(1, items, key=count)\<close>,
  which for one element is \<^verbatim>\<open>max\<close> over the items, and the empty list when there are none.
\<close>

fun count_elem :: "(string \<times> int) list \<Rightarrow> string \<Rightarrow> (string \<times> int) list" where
  "count_elem [] k = [(k, 1)]"
| "count_elem ((k', c) # kvs) k =
     (if k' = k then (k', c + 1) # kvs else (k', c) # count_elem kvs k)"

definition Counter :: "string list \<Rightarrow> (string \<times> int) list" where
  "Counter names = foldl count_elem [] names"

definition most_common_1 :: "(string \<times> int) list \<Rightarrow> (string \<times> int) list" where
  "most_common_1 items = (case items of [] \<Rightarrow> [] | kv # kvs \<Rightarrow> [py_max snd kv kvs])"

text \<open>\<^verbatim>\<open>get_common_dog_name\<close>; the index \<^verbatim>\<open>[0]\<close> raises on an empty list.\<close>

definition get_common_dog_name :: "doghouse \<Rightarrow> error + string" where
  "get_common_dog_name self =
     (if dogs self = [] then Inr []
      else (let name_count = Counter (map dog_name (dogs self))
            in case most_common_1 name_count of
                 [] \<Rightarrow> Inl IndexError
               | kv # _ \<Rightarrow> Inr (fst kv)))"

section \<open>Submission\<close>

text \<open>
  The dictionary that \<^verbatim>\<open>send_data\<close> builds, and \<^verbatim>\<open>post(url, data, token)\<close>, which returns
  the server's answer. \<^verbatim>\<open>send_data\<close> evaluates the four entries in order; reading
  \<^verbatim>\<open>.name\<close> of \<^verbatim>\<open>None\<close> raises \<^verbatim>\<open>AttributeError\<close> before anything is posted. After the
  post, the answer is printed: the result \<open>Inr (answer, w')\<close> is the printed answer and
  the server's state after the post.
\<close>

record payload =
  totalBreeds :: int
  totalDogs :: int
  commonBreed :: string
  commonDogName :: string

type_synonym ('w, 'p) transport_post = "'w \<Rightarrow> string \<Rightarrow> payload \<Rightarrow> string \<Rightarrow> 'p \<times> 'w"

definition name_of :: "breed option \<Rightarrow> error + string" where
  "name_of b = (case b of None \<Rightarrow> Inl AttributeError | Some b' \<Rightarrow> Inr (breed_name b'))"

definition send_data ::
  "('w, 'p) transport_post \<Rightarrow> string \<Rightarrow> 'd \<Rightarrow> string \<Rightarrow> doghouse \<Rightarrow> 'w \<Rightarrow> error + ('p \<times> 'w)"
where
  "send_data post base data token self w =
     (let tb = get_total_breeds self;
          td = get_total_dogs self
      in case name_of (get_common_breed self) of
           Inl e \<Rightarrow> Inl e
         | Inr cb \<Rightarrow>
             (case get_common_dog_name self of
                Inl e \<Rightarrow> Inl e
              | Inr cn \<Rightarrow>
                  (let data' = \<lparr>totalBreeds = tb, totalDogs = td,
                                commonBreed = cb, commonDogName = cn\<rparr>;
                       url = base @ ''/api/v1/answer/''
                   in Inr (post w url data' token))))"

section \<open>Notions used to state the properties\<close>

text \<open>
  The pages that a transport hands out from a starting URL: \<open>serves get token url w pages\<close>
  holds when following \<^verbatim>\<open>next\<close> from \<open>url\<close> in the server state \<open>w\<close> yields exactly
  \<open>pages\<close>, one response per request, the last of them with no usable \<^verbatim>\<open>next\<close>.
\<close>

fun serves :: "'w transport_get \<Rightarrow> string \<Rightarrow> string option \<Rightarrow> 'w \<Rightarrow> response list \<Rightarrow> bool" where
  "serves get token url w [] = (\<not> truthy url)"
| "serves get token url w (r # rs) =
     (case url of
        None \<Rightarrow> False
      | Some u \<Rightarrow> u \<noteq> [] \<and> fst (get w u token) = r
                  \<and> serves get token (nxt r) (snd (get w u token)) rs)"

text \<open>The dog that a record becomes against a list of breeds, if its breed id is known there.\<close>

definition dog_of :: "breed list \<Rightarrow> item \<Rightarrow> dog option" where
  "dog_of bs r =
     map_option (\<lambda>b. Dog (item_id r) (item_name r) (breed_id b)) (find_breed (item_breed r) bs)"

text \<open>
  The two data-model invariants that relate dogs and breeds: every dog refers to a breed
  of the aggregate, and, when no two breeds share an id, a breed's dogs are the
  aggregate's dogs of that breed, in order.
\<close>

definition linked :: "doghouse \<Rightarrow> bool" where
  "linked self \<longleftrightarrow>
     (\<forall>d\<in>set (dogs self). \<exists>b\<in>set (breeds self). breed_id b = dog_breed d) \<and>
     (distinct (map breed_id (breeds self)) \<longrightarrow>
        (\<forall>b\<in>set (breeds self).
           breed_dogs b = filter (\<lambda>d. dog_breed d = breed_id b) (dogs self)))"

definition total_agrees :: "doghouse \<Rightarrow> bool" where
  "total_agrees self \<longleftrightarrow> get_total_dogs self = sum_list (map dogs_count (breeds self))"

section \<open>Concrete inputs\<close>

text \<open>
  A transport that answers its \<open>n\<close>-th request with the \<open>n\<close>-th response of a script,
  and with an empty response once the script is used up. Its state is the number of
  requests served.
\<close>

definition script_get :: "response list \<Rightarrow> nat transport_get" where
  "script_get pages w url token =
     (if w < length pages then pages ! w else \<lparr>count = None, results = None, nxt = None\<rparr>,
      Suc w)"

definition start :: "nat io" where
  "start = \<lparr>world = 0, requests = []\<rparr>"

text \<open>
  Three breeds on two pages and four dog records, the last of a breed nobody loaded and
  one without a breed.
\<close>

definition kennel_pages :: "response list" where
  "kennel_pages =
     [\<lparr>count = Some 3,
       results = Some [\<lparr>item_id = 1, item_name = ''Kiltro'', item_breed = None\<rparr>],
       nxt = Some ''B/api/v1/breeds/?limit=1&offset=1''\<rparr>,
      \<lparr>count = Some 3,
       results = Some [\<lparr>item_id = 1, item_name = ''Kiltro'', item_breed = None\<rparr>,
                       \<lparr>item_id = 2, item_name = ''Poodle'', item_breed = None\<rparr>],
       nxt = Some ''B/api/v1/breeds/?limit=3&offset=2''\<rparr>,
      \<lparr>count = Some 3,
       results = Some [\<lparr>item_id = 3, item_name = ''Beagle'', item_breed = None\<rparr>],
       nxt = None\<rparr>,
      \<lparr>count = Some 5,
       results = Some [\<lparr>item_id = 10, item_name = ''Rex'', item_breed = Some 2\<rparr>,
                       \<lparr>item_id = 11, item_name = ''Fido'', item_breed = Some 1\<rparr>,
                       \<lparr>item_id = 12, item_name = ''Rex'', item_breed = Some 2\<rparr>,
                       \<lparr>item_id = 13, item_name = ''Laika'', item_breed = Some 7\<rparr>,
                       \<lparr>item_id = 14, item_name = ''Bobby'', item_breed = None\<rparr>],
       nxt = Some []\<rparr>]"

definition kennel :: doghouse where
  "kennel =
     \<lparr>breeds =
        [\<lparr>breed_id = 1, breed_name = ''Kiltro'', breed_dogs = [Dog 11 ''Fido'' 1]\<rparr>,
         \<lparr>breed_id = 2, breed_name = ''Poodle'',
          breed_dogs = [Dog 10 ''Rex'' 2, Dog 12 ''Rex'' 2]\<rparr>,
         \<lparr>breed_id = 3, breed_name = ''Beagle'', breed_dogs = []\<rparr>],
      dogs = [Dog 10 ''Rex'' 2, Dog 11 ''Fido'' 1, Dog 12 ''Rex'' 2]\<rparr>"

definition kennel_io :: "nat io" where
  "kennel_io =
     \<lparr>world = 4,
      requests = [''B/api/v1/breeds/?limit=1'', ''B/api/v1/breeds/?limit=3'',
                  ''B/api/v1/breeds/?limit=3&offset=2'', ''B/api/v1/dogs/'']\<rparr>"

text \<open>A server that lists the same breed id twice, and a dog of that breed.\<close>

definition twice_pages :: "response list" where
  "twice_pages =
     [\<lparr>count = Some 2, results = None, nxt = None\<rparr>,
      \<lparr>count = Some 2,
       results = Some [\<lparr>item_id = 1, item_name = ''Kiltro'', item_breed = None\<rparr>,
                       \<lparr>item_id = 1, item_name = ''Quiltro'', item_breed = None\<rparr>],
       nxt = None\<rparr>,
      \<lparr>count = Some 1,
       results = Some [\<lparr>item_id = 10, item_name = ''Rex'', item_breed = Some 1\<rparr>],
       nxt = None\<rparr>]"

definition twice_house :: doghouse where
  "twice_house =
     \<lparr>breeds =
        [\<lparr>breed_id = 1, breed_name = ''Kiltro'', breed_dogs = [Dog 10 ''Rex'' 1]\<rparr>,
         \<lparr>breed_id = 1, breed_name = ''Quiltro'', breed_dogs = []\<rparr>],
      dogs = [Dog 10 ''Rex'' 1]\<rparr>"

definition twice_io :: "nat io" where
  "twice_io =
     \<lparr>world = 3,
      requests = [''B/api/v1/breeds/?limit=1'', ''B/api/v1/breeds/?limit=2'',
                  ''B/api/v1/dogs/'']\<rparr>"

text \<open>One page of dogs holding one record, of a breed that was never loaded.\<close>

definition stray :: item where
  "stray = \<lparr>item_id = 13, item_name = ''Laika'', item_breed = Some 7\<rparr>"

definition stray_pages :: "response list" where
  "stray_pages = [\<lparr>count = Some 1, results = Some [stray], nxt = None\<rparr>]"

text \<open>Three pages of 100, 100 and 37 records.\<close>

definition pup :: item where
  "pup = \<lparr>item_id = 1, item_name = ''Kiltro'', item_breed = Some 1\<rparr>"

definition three_pages :: "response list" where
  "three_pages =
     [\<lparr>count = Some 237, results = Some (replicate 100 pup), nxt = Some ''page2''\<rparr>,
      \<lparr>count = Some 237, results = Some (replicate 100 pup), nxt = Some ''page3''\<rparr>,
      \<lparr>count = Some 237, results = Some (replicate 37 pup), nxt = None\<rparr>]"

text \<open>Breeds A, B and C with two, two and one dog, loaded in that order.\<close>

definition breed_A :: breed where
  "breed_A = \<lparr>breed_id = 1, breed_name = ''A'',
              breed_dogs = [Dog 1 ''Rex'' 1, Dog 2 ''Fido'' 1]\<rparr>"

definition breed_B :: breed where
  "breed_B = \<lparr>breed_id = 2, breed_name = ''B'',
              breed_dogs = [Dog 3 ''Rex'' 2, Dog 4 ''Fido'' 2]\<rparr>"

definition breed_C :: breed where
  "breed_C = \<lparr>breed_id = 3, breed_name = ''C'', breed_dogs = [Dog 5 ''Bobby'' 3]\<rparr>"

definition abc_house :: doghouse where
  "abc_house =
     \<lparr>breeds = [breed_A, breed_B, breed_C],
      dogs = [Dog 1 ''Rex'' 1, Dog 2 ''Fido'' 1, Dog 3 ''Rex'' 2, Dog 4 ''Fido'' 2,
              Dog 5 ''Bobby'' 3]\<rparr>"

text \<open>Dogs named Rex, Fido, Rex, Fido, in that order.\<close>

definition rex_fido_house :: doghouse where
  "rex_fido_house =
     \<lparr>breeds = [\<lparr>breed_id = 1, breed_name = ''A'',
                 breed_dogs = [Dog 1 ''Rex'' 1, Dog 2 ''Fido'' 1, Dog 3 ''Rex'' 1,
                               Dog 4 ''Fido'' 1]\<rparr>],
      dogs = [Dog 1 ''Rex'' 1, Dog 2 ''Fido'' 1, Dog 3 ''Rex'' 1, Dog 4 ''Fido'' 1]\<rparr>"

text \<open>A dog record of breed B.\<close>

definition newcomer :: item where
  "newcomer = \<lparr>item_id = 6, item_name = ''Rex'', item_breed = Some 2\<rparr>"

text \<open>One page of dogs: a dog of breed B, then a dog of a breed that was never loaded.\<close>

definition visit_pages :: "response list" where
  "visit_pages = [\<lparr>count = Some 2, results = Some [newcomer, stray], nxt = None\<rparr>]"

text \<open>A submission endpoint that answers with the payload it was sent.\<close>

definition echo_post :: "(nat, payload) transport_post" where
  "echo_post w url data token = (data, Suc w)"

section \<open>Selecting a maximum\<close>

lemma py_max_snoc:
  "py_max key x (xs @ [y]) = (if key (py_max key x xs) < key y then y else py_max key x xs)"
  by (simp add: py_max_def)

lemma py_max_first:
  "\<exists>pre post. x # xs = pre @ py_max key x xs # post
     \<and> (\<forall>y\<in>set pre. key y < key (py_max key x xs))
     \<and> (\<forall>y\<in>set post. key y \<le> key (py_max key x xs))"
proof (induction xs rule: rev_induct)
  case Nil
  have "[x] = [] @ py_max key x [] # []" by (simp add: py_max_def)
  then show ?case by fastforce
next
  case (snoc y xs)
  then obtain pre post where d: "x # xs = pre @ py_max key x xs # post"
    and lt: "\<forall>z\<in>set pre. key z < key (py_max key x xs)"
    and le: "\<forall>z\<in>set post. key z \<le> key (py_max key x xs)" by blast
  show ?case
  proof (cases "key (py_max key x xs) < key y")
    case True
    then have m: "py_max key x (xs @ [y]) = y" by (simp add: py_max_snoc)
    have all: "\<forall>z\<in>set (x # xs). key z < key y"
    proof
      fix z assume "z \<in> set (x # xs)"
      then have "z \<in> set pre \<or> z = py_max key x xs \<or> z \<in> set post"
        unfolding d by auto
      then have "key z \<le> key (py_max key x xs)" using lt le by fastforce
      then show "key z < key y" using True by simp
    qed
    have "x # (xs @ [y]) = (x # xs) @ y # []" by simp
    with all m show ?thesis
      by (metis empty_iff list.set(1))
  next
    case False
    then have m: "py_max key x (xs @ [y]) = py_max key x xs" by (simp add: py_max_snoc)
    have "x # (xs @ [y]) = pre @ py_max key x xs # (post @ [y])"
      using d by (metis append_Cons append_assoc)
    moreover have "\<forall>z\<in>set (post @ [y]). key z \<le> key (py_max key x xs)"
      using le False by auto
    ultimately show ?thesis unfolding m using lt by blast
  qed
qed

section \<open>Counting names\<close>

lemma keys_count_elem:
  "map fst (count_elem kvs k) = (if k \<in> fst ` set kvs then map fst kvs else map fst kvs @ [k])"
  by (induction kvs k rule: count_elem.induct) auto

lemma map_of_count_elem:
  "map_of (count_elem kvs k) =
     (map_of kvs)(k \<mapsto> (case map_of kvs k of None \<Rightarrow> 1 | Some c \<Rightarrow> c + 1))"
  by (induction kvs k rule: count_elem.induct) (auto simp: fun_eq_iff)

lemma Counter_snoc: "Counter (xs @ [x]) = count_elem (Counter xs) x"
  by (simp add: Counter_def)

lemma Counter_Nil: "Counter [] = []"
  by (simp add: Counter_def)

lemma keys_Counter: "set (map fst (Counter xs)) = set xs \<and> distinct (map fst (Counter xs))"
  by (induction xs rule: rev_induct) (auto simp: Counter_Nil Counter_snoc keys_count_elem)

lemma map_of_Counter:
  "map_of (Counter xs) k = (if k \<in> set xs then Some (int (count_list xs k)) else None)"
  by (induction xs rule: rev_induct) (auto simp: Counter_Nil Counter_snoc map_of_count_elem)

lemma Counter_entry:
  "(k, c) \<in> set (Counter xs) \<longleftrightarrow> k \<in> set xs \<and> c = int (count_list xs k)"
proof -
  have "distinct (map fst (Counter xs))" using keys_Counter by blast
  then have "(k, c) \<in> set (Counter xs) \<longleftrightarrow> map_of (Counter xs) k = Some c"
    by simp
  then show ?thesis by (auto simp: map_of_Counter)
qed

lemma keys_Counter_append:
  "\<exists>rest. map fst (Counter (ys @ zs)) = map fst (Counter ys) @ rest"
proof (induction zs rule: rev_induct)
  case Nil
  then show ?case by simp
next
  case (snoc z zs)
  then obtain rest where "map fst (Counter (ys @ zs)) = map fst (Counter ys) @ rest" by blast
  then show ?case
    using Counter_snoc [of "ys @ zs" z] by (simp add: keys_count_elem)
qed

lemma keys_Counter_first:
  assumes "n \<notin> set pre"
  shows "\<exists>rest. map fst (Counter (pre @ n # post)) = map fst (Counter pre) @ n # rest"
proof -
  have "map fst (Counter (pre @ [n])) = map fst (Counter pre) @ [n]"
    using assms keys_Counter [of pre] by (simp add: Counter_snoc keys_count_elem)
  moreover obtain rest where
    "map fst (Counter ((pre @ [n]) @ post)) = map fst (Counter (pre @ [n])) @ rest"
    using keys_Counter_append by blast
  ultimately show ?thesis by simp
qed

lemma Counter_max_first:
  assumes "names \<noteq> []"
  shows "\<exists>kv kvs n pre post. Counter names = kv # kvs \<and> n = fst (py_max snd kv kvs)
     \<and> names = pre @ n # post \<and> n \<notin> set pre
     \<and> (\<forall>m\<in>set pre. count_list names m < count_list names n)
     \<and> (\<forall>m. count_list names m \<le> count_list names n)"
proof -
  have "set (map fst (Counter names)) \<noteq> {}" using assms keys_Counter [of names] by simp
  then obtain kv kvs where C: "Counter names = kv # kvs" by (cases "Counter names") auto
  define p where "p = py_max snd kv kvs"
  obtain ipre ipost where d: "kv # kvs = ipre @ p # ipost"
    and lt: "\<forall>y\<in>set ipre. snd y < snd p" and le: "\<forall>y\<in>set ipost. snd y \<le> snd p"
    using py_max_first [of kv kvs snd] unfolding p_def by blast
  have "(fst p, snd p) \<in> set (Counter names)" unfolding C d by simp
  then have "fst p \<in> set names \<and> snd p = int (count_list names (fst p))"
    by (simp only: Counter_entry)
  then have n_in: "fst p \<in> set names" and c: "snd p = int (count_list names (fst p))"
    by simp_all
  have bound: "count_list names m \<le> count_list names (fst p)" for m
  proof (cases "m \<in> set names")
    case True
    then have "(m, int (count_list names m)) \<in> set (ipre @ p # ipost)"
      using Counter_entry [of m "int (count_list names m)" names] unfolding C d by simp
    then have "int (count_list names m) \<le> snd p" using lt le by fastforce
    then show ?thesis using c by simp
  next
    case False
    then show ?thesis by simp
  qed
  obtain pre post where s: "names = pre @ fst p # post" and nin: "fst p \<notin> set pre"
    using n_in by (meson split_list_first)
  obtain rest where k: "map fst (Counter names) = map fst (Counter pre) @ fst p # rest"
    using keys_Counter_first [OF nin, of post] unfolding s by blast
  have dist: "distinct (map fst (Counter names))" using keys_Counter by blast
  have k2: "map fst (Counter names) = map fst ipre @ fst p # map fst ipost"
    unfolding C d by simp
  have once: "fst p \<notin> set (map fst ipre)" "fst p \<notin> set (map fst ipost)"
    using dist unfolding k2 by auto
  have "map fst ipre @ fst p # map fst ipost = map fst (Counter pre) @ fst p # rest"
    using k k2 by simp
  then have same: "map fst ipre = map fst (Counter pre)"
    using append_Cons_eq_iff [OF once] by blast
  have before: "count_list names m < count_list names (fst p)" if "m \<in> set pre" for m
  proof -
    have "m \<in> set (map fst ipre)" using that keys_Counter [of pre] same by simp
    then obtain c' where in_pre: "(m, c') \<in> set ipre" by auto
    then have "(m, c') \<in> set (Counter names)" unfolding C d by simp
    then have "c' = int (count_list names m)" by (simp add: Counter_entry)
    moreover have "c' < snd p" using lt in_pre by fastforce
    ultimately show ?thesis using c by simp
  qed
  have "Counter names = kv # kvs \<and> fst p = fst (py_max snd kv kvs)
     \<and> names = pre @ fst p # post \<and> fst p \<notin> set pre
     \<and> (\<forall>m\<in>set pre. count_list names m < count_list names (fst p))
     \<and> (\<forall>m. count_list names m \<le> count_list names (fst p))"
    using C s nin before bound by (simp add: p_def)
  then show ?thesis by (intro exI)
qed

lemma Counter_not_Nil: "names \<noteq> [] \<Longrightarrow> Counter names \<noteq> []"
  using keys_Counter [of names] by auto

lemma get_common_dog_name_no_error: "get_common_dog_name self \<noteq> Inl e"
proof (cases "dogs self = []")
  case True
  then show ?thesis by (simp add: get_common_dog_name_def)
next
  case False
  then have "Counter (map dog_name (dogs self)) \<noteq> []" by (simp add: Counter_not_Nil)
  then show ?thesis
    by (simp add: get_common_dog_name_def most_common_1_def split: list.splits)
qed

section \<open>One dog record\<close>

lemma add_dog_simps:
  "breed_id (add_dog b d) = breed_id b" "breed_name (add_dog b d) = breed_name b"
  "breed_dogs (add_dog b d) = breed_dogs b @ [d]" "dogs_count (add_dog b d) = dogs_count b + 1"
  by (simp_all add: add_dog_def dogs_count_def)

lemma find_breed_None:
  "find_breed bid bs = None \<longleftrightarrow> (\<forall>b\<in>set bs. Some (breed_id b) \<noteq> bid)"
  by (auto simp: find_breed_def find_None_iff)

lemma find_breed_Some:
  "find_breed bid bs = Some b \<longleftrightarrow>
     (\<exists>pre post. bs = pre @ b # post \<and> (\<forall>x\<in>set pre. Some (breed_id x) \<noteq> bid)
        \<and> Some (breed_id b) = bid)"
proof (induction bs)
  case Nil
  then show ?case by (simp add: find_breed_def)
next
  case (Cons a bs)
  show ?case
  proof (cases "Some (breed_id a) = bid")
    case True
    have "(\<exists>pre post. a # bs = pre @ b # post \<and> (\<forall>x\<in>set pre. Some (breed_id x) \<noteq> bid)
        \<and> Some (breed_id b) = bid) \<longleftrightarrow> a = b"
    proof
      assume "\<exists>pre post. a # bs = pre @ b # post \<and> (\<forall>x\<in>set pre. Some (breed_id x) \<noteq> bid)
        \<and> Some (breed_id b) = bid"
      then obtain pre post where e: "a # bs = pre @ b # post"
        and n: "\<forall>x\<in>set pre. Some (breed_id x) \<noteq> bid" by blast
      show "a = b"
      proof (cases pre)
        case Nil
        with e show ?thesis by simp
      next
        case (Cons p ps)
        with e have "p = a" by simp
        with n Cons True show ?thesis by simp
      qed
    next
      assume "a = b"
      then have "a # bs = [] @ b # bs" by simp
      with True \<open>a = b\<close> show "\<exists>pre post. a # bs = pre @ b # post
        \<and> (\<forall>x\<in>set pre. Some (breed_id x) \<noteq> bid) \<and> Some (breed_id b) = bid"
        by (metis empty_iff list.set(1))
    qed
    with True show ?thesis by (simp add: find_breed_def)
  next
    case False
    have "(\<exists>pre post. a # bs = pre @ b # post \<and> (\<forall>x\<in>set pre. Some (breed_id x) \<noteq> bid)
        \<and> Some (breed_id b) = bid) \<longleftrightarrow>
      (\<exists>pre post. bs = pre @ b # post \<and> (\<forall>x\<in>set pre. Some (breed_id x) \<noteq> bid)
        \<and> Some (breed_id b) = bid)" (is "?L \<longleftrightarrow> ?R")
    proof
      assume ?L
      then obtain pre post where e: "a # bs = pre @ b # post"
        and n: "\<forall>x\<in>set pre. Some (breed_id x) \<noteq> bid" and m: "Some (breed_id b) = bid"
        by blast
      show ?R
      proof (cases pre)
        case Nil
        with e m False show ?thesis by simp
      next
        case (Cons p ps)
        with e n m have "bs = ps @ b # post \<and> (\<forall>x\<in>set ps. Some (breed_id x) \<noteq> bid)
          \<and> Some (breed_id b) = bid" by simp
        then show ?thesis by blast
      qed
    next
      assume ?R
      then obtain pre post where e: "bs = pre @ b # post"
        and n: "\<forall>x\<in>set pre. Some (breed_id x) \<noteq> bid" and m: "Some (breed_id b) = bid"
        by blast
      have "a # bs = (a # pre) @ b # post \<and> (\<forall>x\<in>set (a # pre). Some (breed_id x) \<noteq> bid)
          \<and> Some (breed_id b) = bid" using e n m False by simp
      then show ?L by blast
    qed
    moreover have "find_breed bid (a # bs) = find_breed bid bs"
      using False by (simp add: find_breed_def)
    ultimately show ?thesis using Cons.IH by simp
  qed
qed

lemma add_dog_first_split:
  "(\<forall>x\<in>set pre. Some (breed_id x) \<noteq> bid) \<Longrightarrow> Some (breed_id b) = bid \<Longrightarrow>
     add_dog_first bid d (pre @ b # post) = pre @ add_dog b d # post"
  by (induction pre) auto

lemma add_dog_first_ids: "map breed_id (add_dog_first bid d bs) = map breed_id bs"
  by (induction bs) (auto simp: add_dog_simps)

lemma add_dog_first_unmatched:
  "(\<forall>b\<in>set bs. Some (breed_id b) \<noteq> bid) \<Longrightarrow> add_dog_first bid d bs = bs"
  by (induction bs) auto

lemma add_dog_data_unmatched:
  "(\<forall>b\<in>set (breeds self). Some (breed_id b) \<noteq> item_breed dd) \<Longrightarrow> add_dog_data self dd = self"
  using find_breed_None [of "item_breed dd" "breeds self"]
  by (simp add: add_dog_data_def Let_def)

lemma add_dog_data_matched:
  assumes "breeds self = pre @ b # post" "\<forall>x\<in>set pre. Some (breed_id x) \<noteq> item_breed dd"
    "Some (breed_id b) = item_breed dd"
  shows "add_dog_data self dd =
     \<lparr>breeds = pre @ add_dog b (Dog (item_id dd) (item_name dd) (breed_id b)) # post,
      dogs = dogs self @ [Dog (item_id dd) (item_name dd) (breed_id b)]\<rparr>"
proof -
  have "find_breed (item_breed dd) (breeds self) = Some b"
    using assms find_breed_Some [of "item_breed dd" "breeds self" b] by blast
  then show ?thesis
    using assms by (simp add: add_dog_data_def Let_def add_dog_first_split)
qed

lemma add_dog_data_ids: "map breed_id (breeds (add_dog_data self dd)) = map breed_id (breeds self)"
  by (simp add: add_dog_data_def Let_def add_dog_first_ids split: option.splits)

lemma foldl_add_dog_data_ids:
  "map breed_id (breeds (foldl add_dog_data self rs)) = map breed_id (breeds self)"
  by (induction rs arbitrary: self) (simp_all add: add_dog_data_ids)

lemma unmatched_ids:
  "(\<forall>b\<in>set bs. Some (breed_id b) \<noteq> bid) \<longleftrightarrow> (\<forall>i\<in>set (map breed_id bs). Some i \<noteq> bid)"
  by auto

lemma foldl_add_dog_data_drop:
  assumes "\<forall>b\<in>set (breeds self). Some (breed_id b) \<noteq> item_breed r"
  shows "foldl add_dog_data self (xs @ r # ys) = foldl add_dog_data self (xs @ ys)"
proof -
  have "\<forall>i\<in>set (map breed_id (breeds (foldl add_dog_data self xs))). Some i \<noteq> item_breed r"
    using assms unfolding foldl_add_dog_data_ids by simp
  then have "\<forall>b\<in>set (breeds (foldl add_dog_data self xs)). Some (breed_id b) \<noteq> item_breed r"
    by simp
  then have "add_dog_data (foldl add_dog_data self xs) r = foldl add_dog_data self xs"
    by (rule add_dog_data_unmatched)
  then show ?thesis by simp
qed


section \<open>Invariants of the loaders\<close>

lemma find_breed_cases:
  fixes bs :: "breed list"
  obtains (unmatched) "\<forall>b\<in>set bs. Some (breed_id b) \<noteq> bid"
  | (matched) pre b post where "bs = pre @ b # post"
      "\<forall>x\<in>set pre. Some (breed_id x) \<noteq> bid" "Some (breed_id b) = bid"
proof (cases "find_breed bid bs")
  case None
  then show ?thesis using unmatched by (simp add: find_breed_None)
next
  case (Some b)
  then show ?thesis using matched find_breed_Some [of bid bs b] by blast
qed

lemma total_agrees_add_breed_data: "total_agrees self \<Longrightarrow> total_agrees (add_breed_data self r)"
  by (simp add: total_agrees_def add_breed_data_def get_total_dogs_def dogs_count_def Breed_def)

lemma total_agrees_add_dog_data:
  assumes "total_agrees self"
  shows "total_agrees (add_dog_data self r)"
proof (cases rule: find_breed_cases [of "breeds self" "item_breed r"])
  case unmatched
  then show ?thesis using assms by (simp add: add_dog_data_unmatched)
next
  case (matched pre b post)
  show ?thesis
    using assms unfolding add_dog_data_matched [OF matched]
    by (simp add: total_agrees_def get_total_dogs_def matched(1) add_dog_simps)
qed

lemma foldl_invariant:
  assumes "\<And>h r. P h \<Longrightarrow> P (f h r)"
  shows "P h \<Longrightarrow> P (foldl f h rs)"
  by (induction rs arbitrary: h) (simp_all add: assms)


lemma breeds_loop_run:
  assumes run: "breeds_loop get token url self s = Some (self', s')"
  shows "\<exists>recs reqs. self' = foldl add_breed_data self recs \<and> requests s' = requests s @ reqs
     \<and> (\<forall>u. url = Some u \<and> u \<noteq> [] \<longrightarrow> (\<exists>rest. reqs = u # rest))"
proof -
  let ?Q = "\<lambda>(url :: string option) self (s :: 'a io) (y :: doghouse \<times> 'a io).
     \<exists>recs reqs. fst y = foldl add_breed_data self recs \<and> requests (snd y) = requests s @ reqs
       \<and> (\<forall>u. url = Some u \<and> u \<noteq> [] \<longrightarrow> (\<exists>rest. reqs = u # rest))"
  have "?Q url self s (self', s')"
  proof (rule breeds_loop.raw_induct [where P = "\<lambda>get token. ?Q", OF _ run])
    fix loop :: "'a transport_get \<Rightarrow> string \<Rightarrow> string option \<Rightarrow> doghouse \<Rightarrow> 'a io
        \<Rightarrow> (doghouse \<times> 'a io) option"
    fix get token url self s y
    assume IH: "\<And>get token url self s y. loop get token url self s = Some y
        \<Longrightarrow> ?Q url self s y"
    assume body: "(case url of None \<Rightarrow> Some (self, s)
      | Some u \<Rightarrow> if u = [] then Some (self, s)
          else case get_call get u token s of
               (response, s') \<Rightarrow> loop get token (nxt response)
                  (foldl add_breed_data self (results_or_empty response)) s') = Some y"
    show "?Q url self s y"
    proof (cases "truthy url")
      case False
      then have y: "y = (self, s)"
        using body by (auto simp: truthy_def split: option.splits if_splits)
      have "fst y = foldl add_breed_data self [] \<and> requests (snd y) = requests s @ []
        \<and> (\<forall>u. url = Some u \<and> u \<noteq> [] \<longrightarrow> (\<exists>rest. [] = u # rest))"
        using False y by (auto simp: truthy_def)
      then show ?thesis by blast
    next
      case True
      then obtain u where u: "url = Some u" "u \<noteq> []"
        by (auto simp: truthy_def split: option.splits)
      obtain r s1 where g: "get_call get u token s = (r, s1)"
        by (cases "get_call get u token s")
      then have s1: "requests s1 = requests s @ [u]"
        by (auto simp: get_call_def split: prod.splits)
      have "loop get token (nxt r) (foldl add_breed_data self (results_or_empty r)) s1 = Some y"
        using body u g by simp
      from IH [OF this] obtain recs reqs where
        1: "fst y = foldl add_breed_data (foldl add_breed_data self (results_or_empty r)) recs"
        and 2: "requests (snd y) = requests s1 @ reqs" by blast
      have "fst y = foldl add_breed_data self (results_or_empty r @ recs)
        \<and> requests (snd y) = requests s @ (u # reqs)
        \<and> (\<forall>v. url = Some v \<and> v \<noteq> [] \<longrightarrow> (\<exists>rest. u # reqs = v # rest))"
        using 1 2 s1 u by simp
      then show ?thesis by blast
    qed
  qed
  then show ?thesis by simp
qed

lemma dogs_loop_run:
  assumes run: "dogs_loop get token url self s = Some (self', s')"
  shows "\<exists>recs reqs. self' = foldl add_dog_data self recs \<and> requests s' = requests s @ reqs
     \<and> (\<forall>u. url = Some u \<and> u \<noteq> [] \<longrightarrow> (\<exists>rest. reqs = u # rest))"
proof -
  let ?Q = "\<lambda>(url :: string option) self (s :: 'a io) (y :: doghouse \<times> 'a io).
     \<exists>recs reqs. fst y = foldl add_dog_data self recs \<and> requests (snd y) = requests s @ reqs
       \<and> (\<forall>u. url = Some u \<and> u \<noteq> [] \<longrightarrow> (\<exists>rest. reqs = u # rest))"
  have "?Q url self s (self', s')"
  proof (rule dogs_loop.raw_induct [where P = "\<lambda>get token. ?Q", OF _ run])
    fix loop :: "'a transport_get \<Rightarrow> string \<Rightarrow> string option \<Rightarrow> doghouse \<Rightarrow> 'a io
        \<Rightarrow> (doghouse \<times> 'a io) option"
    fix get token url self s y
    assume IH: "\<And>get token url self s y. loop get token url self s = Some y
        \<Longrightarrow> ?Q url self s y"
    assume body: "(case url of None \<Rightarrow> Some (self, s)
      | Some u \<Rightarrow> if u = [] then Some (self, s)
          else case get_call get u token s of
               (response, s') \<Rightarrow> loop get token (nxt response)
                  (foldl add_dog_data self (results_or_empty response)) s') = Some y"
    show "?Q url self s y"
    proof (cases "truthy url")
      case False
      then have y: "y = (self, s)"
        using body by (auto simp: truthy_def split: option.splits if_splits)
      have "fst y = foldl add_dog_data self [] \<and> requests (snd y) = requests s @ []
        \<and> (\<forall>u. url = Some u \<and> u \<noteq> [] \<longrightarrow> (\<exists>rest. [] = u # rest))"
        using False y by (auto simp: truthy_def)
      then show ?thesis by blast
    next
      case True
      then obtain u where u: "url = Some u" "u \<noteq> []"
        by (auto simp: truthy_def split: option.splits)
      obtain r s1 where g: "get_call get u token s = (r, s1)"
        by (cases "get_call get u token s")
      then have s1: "requests s1 = requests s @ [u]"
        by (auto simp: get_call_def split: prod.splits)
      have "loop get token (nxt r) (foldl add_dog_data self (results_or_empty r)) s1 = Some y"
        using body u g by simp
      from IH [OF this] obtain recs reqs where
        1: "fst y = foldl add_dog_data (foldl add_dog_data self (results_or_empty r)) recs"
        and 2: "requests (snd y) = requests s1 @ reqs" by blast
      have "fst y = foldl add_dog_data self (results_or_empty r @ recs)
        \<and> requests (snd y) = requests s @ (u # reqs)
        \<and> (\<forall>v. url = Some v \<and> v \<noteq> [] \<longrightarrow> (\<exists>rest. u # reqs = v # rest))"
        using 1 2 s1 u by simp
      then show ?thesis by blast
    qed
  qed
  then show ?thesis by simp
qed

lemma get_breeds_data_run:
  assumes "get_breeds_data get base token self s = Some (self', s')"
  shows "\<exists>recs rest. self' = foldl add_breed_data self recs
     \<and> requests s' = requests s @ (base @ ''/api/v1/breeds/?limit=1'')
          # breeds_url base (min 100 (count_or_0 (fst (get (world s) (base @ ''/api/v1/breeds/?limit=1'') token)))) # rest"
proof -
  let ?probe = "base @ ''/api/v1/breeds/?limit=1''"
  obtain r w1 where g: "get (world s) ?probe token = (r, w1)"
    by (cases "get (world s) ?probe token")
  let ?s1 = "\<lparr>world = w1, requests = requests s @ [?probe]\<rparr>"
  let ?u = "breeds_url base (min 100 (count_or_0 r))"
  have run: "breeds_loop get token (Some ?u) self ?s1 = Some (self', s')"
    using assms g by (simp add: get_breeds_data_def get_call_def Let_def)
  have "?u \<noteq> []" by (simp add: breeds_url_def)
  with breeds_loop_run [OF run] obtain recs rest where
    "self' = foldl add_breed_data self recs" "requests s' = requests ?s1 @ ?u # rest"
    by blast
  then have "self' = foldl add_breed_data self recs
     \<and> requests s' = requests s @ ?probe # ?u # rest" by simp
  moreover have "fst (get (world s) ?probe token) = r" using g by simp
  ultimately show ?thesis by blast
qed

lemma get_data_run:
  assumes "get_data get base token self s = Some (self', s')"
  shows "\<exists>brecs drecs. self' = foldl add_dog_data (foldl add_breed_data self brecs) drecs"
proof -
  obtain h1 s1 where 1: "get_breeds_data get base token self s = Some (h1, s1)"
    and 2: "dogs_loop get token (Some (base @ ''/api/v1/dogs/'')) h1 s1 = Some (self', s')"
    using assms by (auto simp: get_data_def get_dogs_data_def split: option.splits)
  from get_breeds_data_run [OF 1] dogs_loop_run [OF 2] show ?thesis by blast
qed

lemma get_data_invariant:
  assumes b: "\<And>h r. P h \<Longrightarrow> P (add_breed_data h r)"
    and d: "\<And>h r. P h \<Longrightarrow> P (add_dog_data h r)"
    and run: "get_data get base token self s = Some (self', s')"
    and start: "P self"
  shows "P self'"
proof -
  obtain brecs drecs where
    e: "self' = foldl add_dog_data (foldl add_breed_data self brecs) drecs"
    using get_data_run [OF run] by blast
  have "P (foldl add_breed_data self brecs)" using b start by (rule foldl_invariant)
  with d show ?thesis unfolding e by (rule foldl_invariant)
qed

lemma linkedI:
  assumes "\<And>d. d \<in> set (dogs self) \<Longrightarrow> dog_breed d \<in> breed_id ` set (breeds self)"
    and "\<And>b. distinct (map breed_id (breeds self)) \<Longrightarrow> b \<in> set (breeds self) \<Longrightarrow>
       breed_dogs b = filter (\<lambda>d. dog_breed d = breed_id b) (dogs self)"
  shows "linked self"
  unfolding linked_def using assms by (simp add: image_iff) metis

lemma linked_refs: "linked self \<Longrightarrow> d \<in> set (dogs self) \<Longrightarrow> dog_breed d \<in> breed_id ` set (breeds self)"
  unfolding linked_def by (simp add: image_iff) metis

lemma linked_dogs:
  "linked self \<Longrightarrow> distinct (map breed_id (breeds self)) \<Longrightarrow> b \<in> set (breeds self) \<Longrightarrow>
     breed_dogs b = filter (\<lambda>d. dog_breed d = breed_id b) (dogs self)"
  unfolding linked_def by simp

lemma linked_DogHouse: "linked DogHouse"
  by (simp add: linked_def DogHouse_def)

lemma linked_add_breed_data:
  assumes "linked self"
  shows "linked (add_breed_data self r)"
proof (rule linkedI)
  let ?B = "Breed (item_id r) (item_name r)"
  have bs: "breeds (add_breed_data self r) = breeds self @ [?B]"
    and ds: "dogs (add_breed_data self r) = dogs self"
    by (simp_all add: add_breed_data_def)
  show "dog_breed d \<in> breed_id ` set (breeds (add_breed_data self r))"
    if "d \<in> set (dogs (add_breed_data self r))" for d
    using linked_refs [OF assms, of d] that unfolding bs ds by simp
  show "breed_dogs b = filter (\<lambda>d. dog_breed d = breed_id b) (dogs (add_breed_data self r))"
    if dist: "distinct (map breed_id (breeds (add_breed_data self r)))"
      and b: "b \<in> set (breeds (add_breed_data self r))" for b
  proof (cases "b \<in> set (breeds self)")
    case True
    moreover have "distinct (map breed_id (breeds self))" using dist unfolding bs by simp
    ultimately show ?thesis unfolding ds using assms by (simp add: linked_dogs)
  next
    case False
    then have b': "b = ?B" using b unfolding bs by simp
    have new: "breed_id ?B \<notin> breed_id ` set (breeds self)" using dist unfolding bs by simp
    have "dog_breed d \<noteq> breed_id ?B" if "d \<in> set (dogs self)" for d
      using linked_refs [OF assms that] new by metis
    then have "filter (\<lambda>d. dog_breed d = breed_id ?B) (dogs self) = []"
      by (simp add: filter_empty_conv)
    then show ?thesis unfolding b' ds by (simp add: Breed_def)
  qed
qed

lemma linked_add_dog_data:
  assumes "linked self"
  shows "linked (add_dog_data self r)"
proof (cases rule: find_breed_cases [of "breeds self" "item_breed r"])
  case unmatched
  then show ?thesis using assms by (simp add: add_dog_data_unmatched)
next
  case (matched pre b0 post)
  let ?d = "Dog (item_id r) (item_name r) (breed_id b0)"
  let ?bs = "pre @ add_dog b0 ?d # post"
  have e: "add_dog_data self r = \<lparr>breeds = ?bs, dogs = dogs self @ [?d]\<rparr>"
    by (rule add_dog_data_matched [OF matched])
  have bs: "breeds (add_dog_data self r) = ?bs"
    and ds: "dogs (add_dog_data self r) = dogs self @ [?d]"
    unfolding e by simp_all
  have ids: "map breed_id ?bs = map breed_id (breeds self)"
    by (simp add: matched(1) add_dog_simps)
  then have idset: "breed_id ` set ?bs = breed_id ` set (breeds self)"
    by (metis set_map)
  have d_breed: "dog_breed ?d = breed_id b0" by (simp add: Dog_def)
  show ?thesis
  proof (rule linkedI)
    fix d assume "d \<in> set (dogs (add_dog_data self r))"
    then have "d = ?d \<or> d \<in> set (dogs self)" unfolding ds by auto
    then have "dog_breed d \<in> breed_id ` set (breeds self)"
    proof
      assume "d = ?d"
      then show ?thesis using d_breed matched(1) by simp
    next
      assume "d \<in> set (dogs self)"
      then show ?thesis by (rule linked_refs [OF assms])
    qed
    then show "dog_breed d \<in> breed_id ` set (breeds (add_dog_data self r))"
      unfolding bs idset .
  next
    fix b
    assume dist: "distinct (map breed_id (breeds (add_dog_data self r)))"
      and b: "b \<in> set (breeds (add_dog_data self r))"
    have dist0: "distinct (map breed_id (breeds self))" using dist unfolding bs ids .
    have old: "breed_dogs x = filter (\<lambda>d. dog_breed d = breed_id x) (dogs self)"
      if "x \<in> set (breeds self)" for x
      using assms dist0 that by (rule linked_dogs)
    have "b = add_dog b0 ?d \<or> b \<in> set pre \<or> b \<in> set post" using b unfolding bs by auto
    then show "breed_dogs b = filter (\<lambda>d. dog_breed d = breed_id b) (dogs (add_dog_data self r))"
    proof (elim disjE)
      assume 1: "b = add_dog b0 ?d"
      have "breed_dogs b0 = filter (\<lambda>d. dog_breed d = breed_id b0) (dogs self)"
        using old [of b0] matched(1) by simp
      then show ?thesis unfolding 1 ds by (simp add: add_dog_simps d_breed)
    next
      assume 2: "b \<in> set pre"
      have "breed_id b0 \<notin> breed_id ` set pre" using dist0 unfolding matched(1) by simp
      then have "breed_id b \<noteq> breed_id b0" using 2 by (metis imageI)
      moreover have "b \<in> set (breeds self)" using 2 matched(1) by simp
      ultimately show ?thesis unfolding ds using old [of b] by (simp add: d_breed)
    next
      assume 2: "b \<in> set post"
      have "breed_id b0 \<notin> breed_id ` set post" using dist0 unfolding matched(1) by simp
      then have "breed_id b \<noteq> breed_id b0" using 2 by (metis imageI)
      moreover have "b \<in> set (breeds self)" using 2 matched(1) by simp
      ultimately show ?thesis unfolding ds using old [of b] by (simp add: d_breed)
    qed
  qed
qed

section \<open>Loading from a finite chain of pages\<close>

lemma foldl_add_breed_data:
  "foldl add_breed_data self recs =
     self\<lparr>breeds := breeds self @ map (\<lambda>r. Breed (item_id r) (item_name r)) recs\<rparr>"
  by (induction recs arbitrary: self) (simp_all add: add_breed_data_def)

lemma find_breed_ids:
  "map breed_id bs = map breed_id bs' \<Longrightarrow>
     map_option breed_id (find_breed bid bs) = map_option breed_id (find_breed bid bs')"
proof (induction bs arbitrary: bs')
  case Nil
  then show ?case by (simp add: find_breed_def)
next
  case (Cons a bs)
  then obtain a' bs'' where b: "bs' = a' # bs''" "breed_id a = breed_id a'"
    "map breed_id bs = map breed_id bs''" by (cases bs') auto
  from Cons.IH [OF b(3)] b(2) show ?case unfolding b(1) by (simp add: find_breed_def)
qed

lemma dog_of_ids:
  assumes "map breed_id bs = map breed_id bs'"
  shows "dog_of bs r = dog_of bs' r"
proof -
  have "dog_of bs r = map_option (Dog (item_id r) (item_name r))
      (map_option breed_id (find_breed (item_breed r) bs))" for bs
    by (simp add: dog_of_def option.map_comp comp_def)
  then show ?thesis using find_breed_ids [OF assms] by simp
qed

lemma dogs_add_dog_data:
  "dogs (add_dog_data self r) = dogs self @ List.map_filter (dog_of (breeds self)) [r]"
  by (simp add: add_dog_data_def dog_of_def Let_def List.map_filter_simps split: option.splits)

lemma dogs_foldl_add_dog_data:
  "dogs (foldl add_dog_data self recs) = dogs self @ List.map_filter (dog_of (breeds self)) recs"
proof (induction recs arbitrary: self)
  case Nil
  then show ?case by (simp add: List.map_filter_simps)
next
  case (Cons r recs)
  have "dog_of (breeds (add_dog_data self r)) = dog_of (breeds self)"
    using dog_of_ids [OF add_dog_data_ids] by blast
  then show ?case
    using Cons [of "add_dog_data self r"]
    by (simp add: dogs_add_dog_data List.map_filter_simps split: option.splits)
qed

lemma map_filter_append:
  "List.map_filter f (xs @ ys) = List.map_filter f xs @ List.map_filter f ys"
  by (simp add: List.map_filter_def)

lemma serves_breeds_loop:
  "serves get token url (world s) pages \<Longrightarrow>
     \<exists>s'. breeds_loop get token url self s =
             Some (foldl add_breed_data self (concat (map results_or_empty pages)), s')
       \<and> length (requests s') = length (requests s) + length pages"
proof (induction pages arbitrary: url self s)
  case Nil
  then have "breeds_loop get token url self s = Some (self, s)"
    by (subst breeds_loop.simps) (simp add: truthy_def split: option.splits)
  then show ?case by simp
next
  case (Cons r rs)
  then obtain u where u: "url = Some u" "u \<noteq> []" by (cases url) auto
  obtain w1 where g: "get (world s) u token = (r, w1)"
    using Cons.prems u by (cases "get (world s) u token") auto
  let ?s1 = "\<lparr>world = w1, requests = requests s @ [u]\<rparr>"
  have "serves get token (nxt r) (world ?s1) rs" using Cons.prems u g by simp
  from Cons.IH [OF this, of "foldl add_breed_data self (results_or_empty r)"]
  obtain s' where 1: "breeds_loop get token (nxt r)
        (foldl add_breed_data self (results_or_empty r)) ?s1 =
      Some (foldl add_breed_data (foldl add_breed_data self (results_or_empty r))
              (concat (map results_or_empty rs)), s')"
    and 2: "length (requests s') = length (requests ?s1) + length rs" by blast
  have "breeds_loop get token url self s = breeds_loop get token (nxt r)
        (foldl add_breed_data self (results_or_empty r)) ?s1"
    by (subst breeds_loop.simps) (simp add: u g get_call_def)
  with 1 2 show ?case by simp
qed

lemma serves_dogs_loop:
  "serves get token url (world s) pages \<Longrightarrow>
     \<exists>s'. dogs_loop get token url self s =
             Some (foldl add_dog_data self (concat (map results_or_empty pages)), s')
       \<and> length (requests s') = length (requests s) + length pages"
proof (induction pages arbitrary: url self s)
  case Nil
  then have "dogs_loop get token url self s = Some (self, s)"
    by (subst dogs_loop.simps) (simp add: truthy_def split: option.splits)
  then show ?case by simp
next
  case (Cons r rs)
  then obtain u where u: "url = Some u" "u \<noteq> []" by (cases url) auto
  obtain w1 where g: "get (world s) u token = (r, w1)"
    using Cons.prems u by (cases "get (world s) u token") auto
  let ?s1 = "\<lparr>world = w1, requests = requests s @ [u]\<rparr>"
  have "serves get token (nxt r) (world ?s1) rs" using Cons.prems u g by simp
  from Cons.IH [OF this, of "foldl add_dog_data self (results_or_empty r)"]
  obtain s' where 1: "dogs_loop get token (nxt r)
        (foldl add_dog_data self (results_or_empty r)) ?s1 =
      Some (foldl add_dog_data (foldl add_dog_data self (results_or_empty r))
              (concat (map results_or_empty rs)), s')"
    and 2: "length (requests s') = length (requests ?s1) + length rs" by blast
  have "dogs_loop get token url self s = dogs_loop get token (nxt r)
        (foldl add_dog_data self (results_or_empty r)) ?s1"
    by (subst dogs_loop.simps) (simp add: u g get_call_def)
  with 1 2 show ?case by simp
qed

lemma serves_next:
  "serves get token url w pages \<Longrightarrow>
     \<forall>i<length pages. truthy (nxt (pages ! i)) \<longleftrightarrow> Suc i < length pages"
proof (induction pages arbitrary: url w)
  case Nil
  then show ?case by simp
next
  case (Cons r rs)
  then obtain u where u: "url = Some u" by (cases url) auto
  have tl: "serves get token (nxt r) (snd (get w u token)) rs" using Cons.prems u by simp
  have 0: "truthy (nxt r) \<longleftrightarrow> rs \<noteq> []"
    using tl by (cases rs) (auto simp: truthy_def split: option.splits)
  show ?case
  proof (intro allI impI)
    fix i assume "i < length (r # rs)"
    show "truthy (nxt ((r # rs) ! i)) \<longleftrightarrow> Suc i < length (r # rs)"
    proof (cases i)
      case 0
      with \<open>truthy (nxt r) \<longleftrightarrow> rs \<noteq> []\<close> show ?thesis by simp
    next
      case (Suc j)
      then have "j < length rs" using \<open>i < length (r # rs)\<close> by simp
      with Cons.IH [OF tl] Suc show ?thesis by simp
    qed
  qed
qed

section \<open>What the loaders leave in the aggregate\<close>

lemma breeds_foldl_add_breed_data:
  "breeds (foldl add_breed_data self recs) =
     breeds self @ map (\<lambda>r. Breed (item_id r) (item_name r)) recs"
  by (simp add: foldl_add_breed_data)

lemma get_data_breed_ids:
  assumes run: "get_data get base token DogHouse s = Some (self', s')"
    and probe: "get (world s) (base @ ''/api/v1/breeds/?limit=1'') token = (r0, w1)"
    and chain: "serves get token (Some (breeds_url base (min 100 (count_or_0 r0)))) w1 pages"
  shows "map breed_id (breeds self') = map item_id (concat (map results_or_empty pages))"
proof -
  let ?s1 = "\<lparr>world = w1, requests = requests s @ [base @ ''/api/v1/breeds/?limit=1'']\<rparr>"
  let ?recs = "concat (map results_or_empty pages)"
  have "serves get token (Some (breeds_url base (min 100 (count_or_0 r0)))) (world ?s1) pages"
    using chain by simp
  from serves_breeds_loop [OF this, of DogHouse] obtain s2 where
    "breeds_loop get token (Some (breeds_url base (min 100 (count_or_0 r0)))) DogHouse ?s1
       = Some (foldl add_breed_data DogHouse ?recs, s2)"
    by blast
  then have b: "get_breeds_data get base token DogHouse s
      = Some (foldl add_breed_data DogHouse ?recs, s2)"
    using probe by (simp add: get_breeds_data_def get_call_def Let_def)
  then have "dogs_loop get token (Some (base @ ''/api/v1/dogs/''))
      (foldl add_breed_data DogHouse ?recs) s2 = Some (self', s')"
    using run by (simp add: get_data_def get_dogs_data_def)
  from dogs_loop_run [OF this] obtain drecs where
    "self' = foldl add_dog_data (foldl add_breed_data DogHouse ?recs) drecs"
    by blast
  then have "map breed_id (breeds self')
      = map breed_id (breeds (foldl add_breed_data DogHouse ?recs))"
    by (simp add: foldl_add_dog_data_ids)
  also have "\<dots> = map item_id ?recs"
    by (simp add: breeds_foldl_add_breed_data DogHouse_def Breed_def comp_def)
  finally show ?thesis .
qed

lemma length_add_dog_first: "length (add_dog_first bid d bs) = length bs"
  by (induction bs) simp_all

lemma nth_add_dog_first:
  "i < length bs \<Longrightarrow>
     add_dog_first bid d bs ! i =
       (if Some (breed_id (bs ! i)) = bid \<and> (\<forall>j<i. Some (breed_id (bs ! j)) \<noteq> bid)
        then (bs ! i)\<lparr>breed_dogs := breed_dogs (bs ! i) @ [d]\<rparr> else bs ! i)"
proof (induction bs arbitrary: i)
  case Nil
  then show ?case by simp
next
  case (Cons b bs)
  show ?case
  proof (cases i)
    case 0
    then show ?thesis by (simp add: add_dog_def)
  next
    case (Suc k)
    then have k: "k < length bs" using Cons.prems by simp
    show ?thesis
    proof (cases "Some (breed_id b) = bid")
      case True
      then have "\<not> (\<forall>j<Suc k. Some (breed_id ((b # bs) ! j)) \<noteq> bid)" by auto
      with True Suc show ?thesis by simp
    next
      case False
      then have "(\<forall>j<Suc k. Some (breed_id ((b # bs) ! j)) \<noteq> bid)
          \<longleftrightarrow> (\<forall>j<k. Some (breed_id (bs ! j)) \<noteq> bid)"
        by (simp add: All_less_Suc2)
      with False Suc Cons.IH [OF k] show ?thesis by simp
    qed
  qed
qed

lemma dog_of_char:
  "dog_of bs r =
     (if \<exists>b\<in>set bs. Some (breed_id b) = item_breed r
      then map_option (Dog (item_id r) (item_name r)) (item_breed r) else None)"
proof (cases rule: find_breed_cases [of bs "item_breed r"])
  case unmatched
  then have "find_breed (item_breed r) bs = None" by (simp add: find_breed_None)
  with unmatched show ?thesis by (simp add: dog_of_def)
next
  case (matched pre b post)
  then have "find_breed (item_breed r) bs = Some b"
    using find_breed_Some [of "item_breed r" bs b] by blast
  moreover have "\<exists>x\<in>set bs. Some (breed_id x) = item_breed r"
    using matched by auto
  ultimately show ?thesis using matched(3) [symmetric] by (simp add: dog_of_def)
qed

lemma dog_of_breed:
  "dog_of bs r = Some d \<Longrightarrow> item_breed r = Some (dog_breed d)"
  by (auto simp: dog_of_char Dog_def split: if_splits)

lemma breeds_add_dog_data:
  "breeds (add_dog_data self r) =
     (case dog_of (breeds self) r of
        None \<Rightarrow> breeds self
      | Some d \<Rightarrow> add_dog_first (item_breed r) d (breeds self))"
  by (simp add: add_dog_data_def dog_of_def Let_def split: option.splits)

lemma nth_ids:
  assumes "map breed_id bs' = map breed_id bs" "j < length bs"
  shows "breed_id (bs' ! j) = breed_id (bs ! j)"
proof -
  have "length bs' = length bs" using assms(1) by (metis length_map)
  then have "map breed_id bs' ! j = breed_id (bs' ! j)" "map breed_id bs ! j = breed_id (bs ! j)"
    using assms(2) by simp_all
  then show ?thesis using assms(1) by simp
qed

lemma breeds_foldl_add_dog_data:
  fixes self :: doghouse
  defines "bs \<equiv> breeds self"
  shows "length (breeds (foldl add_dog_data self recs)) = length bs \<and>
     (\<forall>i<length bs.
        breeds (foldl add_dog_data self recs) ! i =
          (if \<forall>j<i. breed_id (bs ! j) \<noteq> breed_id (bs ! i)
           then (bs ! i)\<lparr>breed_dogs := breed_dogs (bs ! i)
                  @ filter (\<lambda>d. dog_breed d = breed_id (bs ! i))
                      (List.map_filter (dog_of bs) recs)\<rparr>
           else bs ! i))"
proof (induction recs rule: rev_induct)
  case Nil
  show ?case by (simp add: bs_def List.map_filter_simps)
next
  case (snoc r recs)
  let ?h = "foldl add_dog_data self recs"
  let ?N = "List.map_filter (dog_of bs) recs"
  have ids: "map breed_id (breeds ?h) = map breed_id bs"
    unfolding bs_def by (rule foldl_add_dog_data_ids)
  have len: "length (breeds ?h) = length bs" using snoc by simp
  have dof: "dog_of (breeds ?h) r = dog_of bs r" using ids by (rule dog_of_ids)
  have step: "foldl add_dog_data self (recs @ [r]) = add_dog_data ?h r" by simp
  show ?case
  proof (cases "dog_of bs r")
    case None
    then have e1: "breeds (add_dog_data ?h r) = breeds ?h"
      by (simp add: breeds_add_dog_data dof)
    have e2: "List.map_filter (dog_of bs) (recs @ [r]) = ?N"
      using None by (simp add: map_filter_append List.map_filter_simps)
    show ?thesis unfolding step e1 e2 by (rule snoc)
  next
    case (Some d)
    have bid: "item_breed r = Some (dog_breed d)" using Some by (rule dog_of_breed)
    have new: "breeds (add_dog_data ?h r) = add_dog_first (Some (dog_breed d)) d (breeds ?h)"
      by (simp add: breeds_add_dog_data dof Some bid)
    have N': "List.map_filter (dog_of bs) (recs @ [r]) = ?N @ [d]"
      using Some by (simp add: map_filter_append List.map_filter_simps)
    have "breeds (add_dog_data ?h r) ! i =
          (if \<forall>j<i. breed_id (bs ! j) \<noteq> breed_id (bs ! i)
           then (bs ! i)\<lparr>breed_dogs := breed_dogs (bs ! i)
                  @ filter (\<lambda>d. dog_breed d = breed_id (bs ! i)) (?N @ [d])\<rparr>
           else bs ! i)" if i: "i < length bs" for i
    proof -
      have old: "breeds ?h ! i =
          (if \<forall>j<i. breed_id (bs ! j) \<noteq> breed_id (bs ! i)
           then (bs ! i)\<lparr>breed_dogs := breed_dogs (bs ! i)
                  @ filter (\<lambda>d. dog_breed d = breed_id (bs ! i)) ?N\<rparr>
           else bs ! i)"
        using snoc i by blast
      have idi: "breed_id (breeds ?h ! i) = breed_id (bs ! i)" using ids i by (rule nth_ids)
      have idj: "breed_id (breeds ?h ! j) = breed_id (bs ! j)" if "j < i" for j
        using ids by (rule nth_ids) (use that i in simp)
      have raw: "add_dog_first (Some (dog_breed d)) d (breeds ?h) ! i =
          (if Some (breed_id (breeds ?h ! i)) = Some (dog_breed d)
              \<and> (\<forall>j<i. Some (breed_id (breeds ?h ! j)) \<noteq> Some (dog_breed d))
           then (breeds ?h ! i)\<lparr>breed_dogs := breed_dogs (breeds ?h ! i) @ [d]\<rparr>
           else breeds ?h ! i)"
        by (rule nth_add_dog_first) (simp add: i len)
      have c: "(Some (breed_id (breeds ?h ! i)) = Some (dog_breed d)
              \<and> (\<forall>j<i. Some (breed_id (breeds ?h ! j)) \<noteq> Some (dog_breed d)))
          \<longleftrightarrow> (breed_id (bs ! i) = dog_breed d \<and> (\<forall>j<i. breed_id (bs ! j) \<noteq> dog_breed d))"
        using idi idj by simp
      have nth: "breeds (add_dog_data ?h r) ! i =
          (if breed_id (bs ! i) = dog_breed d \<and> (\<forall>j<i. breed_id (bs ! j) \<noteq> dog_breed d)
           then (breeds ?h ! i)\<lparr>breed_dogs := breed_dogs (breeds ?h ! i) @ [d]\<rparr>
           else breeds ?h ! i)"
        unfolding new raw c by (rule refl)
      show ?thesis
      proof (cases "breed_id (bs ! i) = dog_breed d")
        case True
        show ?thesis
        proof (cases "\<forall>j<i. breed_id (bs ! j) \<noteq> breed_id (bs ! i)")
          case first: True
          have c1: "breed_id (bs ! i) = dog_breed d \<and> (\<forall>j<i. breed_id (bs ! j) \<noteq> dog_breed d)"
            using True first by simp
          have n1: "breeds (add_dog_data ?h r) ! i =
              (breeds ?h ! i)\<lparr>breed_dogs := breed_dogs (breeds ?h ! i) @ [d]\<rparr>"
            unfolding nth by (rule if_P) (rule c1)
          have o1: "breeds ?h ! i = (bs ! i)\<lparr>breed_dogs := breed_dogs (bs ! i)
                  @ filter (\<lambda>d. dog_breed d = breed_id (bs ! i)) ?N\<rparr>"
            unfolding old by (rule if_P) (rule first)
          have e: "breeds (add_dog_data ?h r) ! i = (bs ! i)\<lparr>breed_dogs := breed_dogs (bs ! i)
                  @ filter (\<lambda>d. dog_breed d = breed_id (bs ! i)) (?N @ [d])\<rparr>"
            unfolding n1 o1 using True by simp
          show ?thesis unfolding e by (rule if_P [symmetric]) (rule first)
        next
          case False
          have c1: "\<not> (breed_id (bs ! i) = dog_breed d \<and> (\<forall>j<i. breed_id (bs ! j) \<noteq> dog_breed d))"
            using True False by simp
          have n1: "breeds (add_dog_data ?h r) ! i = breeds ?h ! i"
            unfolding nth by (rule if_not_P) (rule c1)
          have o1: "breeds ?h ! i = bs ! i"
            unfolding old by (rule if_not_P) (rule False)
          have e: "breeds (add_dog_data ?h r) ! i = bs ! i" unfolding n1 o1 by (rule refl)
          show ?thesis unfolding e by (rule if_not_P [symmetric]) (rule False)
        qed
      next
        case False
        have c1: "\<not> (breed_id (bs ! i) = dog_breed d \<and> (\<forall>j<i. breed_id (bs ! j) \<noteq> dog_breed d))"
          using False by simp
        have n1: "breeds (add_dog_data ?h r) ! i = breeds ?h ! i"
          unfolding nth by (rule if_not_P) (rule c1)
        have f: "filter (\<lambda>d. dog_breed d = breed_id (bs ! i)) (?N @ [d])
            = filter (\<lambda>d. dog_breed d = breed_id (bs ! i)) ?N"
          using False by simp
        show ?thesis unfolding n1 f by (rule old)
      qed
    qed
    moreover have "length (breeds (add_dog_data ?h r)) = length bs"
      unfolding new by (simp add: length_add_dog_first len)
    ultimately show ?thesis unfolding step N' by blast
  qed
qed

section \<open>The claims\<close>

text \<open>
  Claim C1. With no breeds in the aggregate, \<^verbatim>\<open>send_data\<close> does not raise a domain error of
  its own: \<^verbatim>\<open>get_common_breed()\<close> is \<^verbatim>\<open>None\<close> and reading its \<^verbatim>\<open>.name\<close> raises Python's
  \<^verbatim>\<open>AttributeError\<close>, whatever the dogs, the dictionary, the token and the server; nothing
  is posted.
\<close>

theorem send_data_no_breeds:
  "send_data post base data token \<lparr>breeds = [], dogs = ds\<rparr> w = Inl AttributeError"
  by (simp add: send_data_def get_common_breed_def name_of_def)

text \<open>
  Claim C2, as the code has it. After \<^verbatim>\<open>get_data\<close> has returned on a fresh \<^verbatim>\<open>DogHouse\<close>,
  every dog of the dog list has the id of some breed of the breed list. If moreover the
  breed pages that the transport handed out after the probe hold no breed id twice, then
  no two breeds of the breed list have the same id, and the dogs of each breed are exactly
  the dogs of the aggregate with that breed id, in the order of the dog list. The condition
  is on the transport because the loader appends a \<^verbatim>\<open>Breed\<close> for every record it is given:
  a server that lists an id twice yields two breeds with that id.
\<close>

theorem get_data_linked:
  assumes "get_data get base token DogHouse s = Some (self', s')"
  shows "(\<forall>d\<in>set (dogs self'). \<exists>b\<in>set (breeds self'). breed_id b = dog_breed d)
     \<and> (get (world s) (base @ ''/api/v1/breeds/?limit=1'') token = (r0, w1)
          \<and> serves get token
                (Some (base @ ''/api/v1/breeds/?limit='' @ str_int (min 100 (count_or_0 r0))))
                w1 pages
          \<and> distinct (map item_id (concat (map results_or_empty pages))) \<longrightarrow>
        distinct (map breed_id (breeds self'))
        \<and> (\<forall>b\<in>set (breeds self').
              breed_dogs b = filter (\<lambda>d. dog_breed d = breed_id b) (dogs self')))"
proof (intro conjI impI)
  have l: "linked self'"
    using linked_add_breed_data linked_add_dog_data assms linked_DogHouse
    by (rule get_data_invariant)
  then show "\<forall>d\<in>set (dogs self'). \<exists>b\<in>set (breeds self'). breed_id b = dog_breed d"
    unfolding linked_def by (rule conjunct1)
  assume h: "get (world s) (base @ ''/api/v1/breeds/?limit=1'') token = (r0, w1)
          \<and> serves get token
                (Some (base @ ''/api/v1/breeds/?limit='' @ str_int (min 100 (count_or_0 r0))))
                w1 pages
          \<and> distinct (map item_id (concat (map results_or_empty pages)))"
  then have "map breed_id (breeds self') = map item_id (concat (map results_or_empty pages))"
    using get_data_breed_ids [OF assms, of r0 w1 pages] by (simp add: breeds_url_def)
  with h show d: "distinct (map breed_id (breeds self'))" by simp
  with l show "\<forall>b\<in>set (breeds self').
      breed_dogs b = filter (\<lambda>d. dog_breed d = breed_id b) (dogs self')"
    unfolding linked_def by blast
qed

theorem get_data_linked_witness:
  "get_data (script_get kennel_pages) ''B'' ''t'' DogHouse start = Some (kennel, kennel_io)
   \<and> script_get kennel_pages (world start) (''B'' @ ''/api/v1/breeds/?limit=1'') ''t''
       = (kennel_pages ! 0, 1)
   \<and> serves (script_get kennel_pages) ''t''
        (Some (''B'' @ ''/api/v1/breeds/?limit='' @ str_int (min 100 (count_or_0 (kennel_pages ! 0)))))
        1 [kennel_pages ! 1, kennel_pages ! 2]
   \<and> distinct (map item_id (concat (map results_or_empty [kennel_pages ! 1, kennel_pages ! 2])))
   \<and> distinct (map breed_id (breeds kennel))
   \<and> dog_breed ` set (dogs kennel) \<subseteq> breed_id ` set (breeds kennel)
   \<and> map breed_dogs (breeds kennel)
       = map (\<lambda>b. filter (\<lambda>d. dog_breed d = breed_id b) (dogs kennel)) (breeds kennel)"
proof -
  have run: "get_data (script_get kennel_pages) ''B'' ''t'' DogHouse start
      = Some (kennel, kennel_io)"
    by code_simp
  have probe: "script_get kennel_pages (world start) (''B'' @ ''/api/v1/breeds/?limit=1'') ''t''
       = (kennel_pages ! 0, 1)"
    by (simp add: script_get_def start_def kennel_pages_def)
  have chain: "serves (script_get kennel_pages) ''t''
        (Some (''B'' @ ''/api/v1/breeds/?limit='' @ str_int (min 100 (count_or_0 (kennel_pages ! 0)))))
        1 [kennel_pages ! 1, kennel_pages ! 2]"
    by (simp add: script_get_def kennel_pages_def truthy_def)
  have ids: "distinct (map item_id (concat (map results_or_empty
      [kennel_pages ! 1, kennel_pages ! 2])))"
    by (simp add: kennel_pages_def results_or_empty_def)
  note t = get_data_linked [OF run, of "kennel_pages ! 0" 1 "[kennel_pages ! 1, kennel_pages ! 2]"]
  have all: "\<forall>d\<in>set (dogs kennel). \<exists>b\<in>set (breeds kennel). breed_id b = dog_breed d"
    by (rule conjunct1 [OF t])
  have refs: "dog_breed ` set (dogs kennel) \<subseteq> breed_id ` set (breeds kennel)"
  proof (rule image_subsetI)
    fix x assume "x \<in> set (dogs kennel)"
    with all obtain b where "b \<in> set (breeds kennel)" "breed_id b = dog_breed x" by blast
    then show "dog_breed x \<in> breed_id ` set (breeds kennel)" by (metis imageI)
  qed
  have both: "distinct (map breed_id (breeds kennel))
        \<and> (\<forall>b\<in>set (breeds kennel).
              breed_dogs b = filter (\<lambda>d. dog_breed d = breed_id b) (dogs kennel))"
    by (rule mp [OF conjunct2 [OF t]]) (intro conjI, rule probe, rule chain, rule ids)
  then have d: "distinct (map breed_id (breeds kennel))" by (rule conjunct1)
  have "\<forall>b\<in>set (breeds kennel).
      breed_dogs b = filter (\<lambda>d. dog_breed d = breed_id b) (dogs kennel)"
    by (rule conjunct2 [OF both])
  then have m: "map breed_dogs (breeds kennel)
      = map (\<lambda>b. filter (\<lambda>d. dog_breed d = breed_id b) (dogs kennel)) (breeds kennel)"
    by (simp only: map_eq_conv)
  show ?thesis
    by (intro conjI) (rule run, rule probe, rule chain, rule ids, rule d, rule refs, rule m)
qed

theorem get_data_duplicate_breed:
  "get_data (script_get twice_pages) ''B'' ''t'' DogHouse start = Some (twice_house, twice_io)
   \<and> \<not> distinct (map breed_id (breeds twice_house))"
proof -
  have "get_data (script_get twice_pages) ''B'' ''t'' DogHouse start
      = Some (twice_house, twice_io)"
    by code_simp
  then show ?thesis by (simp add: twice_house_def)
qed

text \<open>
  Claim C3. With at least one breed, \<^verbatim>\<open>get_common_breed\<close> returns a breed of the list
  such that every breed before it has strictly fewer dogs and every breed after it has
  at most as many: the first of the breeds with the maximal \<^verbatim>\<open>dogs_count()\<close>. For
  breeds A, B, C with 2, 2 and 1 dogs, in that order, it returns A.
\<close>

theorem get_common_breed_first_max:
  "(breeds self \<noteq> [] \<longrightarrow>
      (\<exists>pre b post. get_common_breed self = Some b \<and> breeds self = pre @ b # post
         \<and> (\<forall>x\<in>set pre. dogs_count x < dogs_count b)
         \<and> (\<forall>x\<in>set post. dogs_count x \<le> dogs_count b)))
   \<and> (dogs_count A = 2 \<and> dogs_count B = 2 \<and> dogs_count C = 1 \<longrightarrow>
        get_common_breed \<lparr>breeds = [A, B, C], dogs = ds\<rparr> = Some A)"
proof (intro conjI impI)
  assume "breeds self \<noteq> []"
  then obtain b bs where bs: "breeds self = b # bs" by (cases "breeds self") auto
  then have "get_common_breed self = Some (py_max dogs_count b bs)"
    by (simp add: get_common_breed_def)
  with py_max_first [of b bs dogs_count] bs
  show "\<exists>pre b post. get_common_breed self = Some b \<and> breeds self = pre @ b # post
         \<and> (\<forall>x\<in>set pre. dogs_count x < dogs_count b)
         \<and> (\<forall>x\<in>set post. dogs_count x \<le> dogs_count b)"
    by auto
next
  assume "dogs_count A = 2 \<and> dogs_count B = 2 \<and> dogs_count C = 1"
  then show "get_common_breed \<lparr>breeds = [A, B, C], dogs = ds\<rparr> = Some A"
    by (simp add: get_common_breed_def py_max_def)
qed

theorem get_common_breed_first_max_witness:
  "breeds abc_house \<noteq> []
   \<and> dogs_count breed_A = 2 \<and> dogs_count breed_B = 2 \<and> dogs_count breed_C = 1
   \<and> get_common_breed abc_house = Some breed_A
   \<and> (\<exists>pre b post. get_common_breed abc_house = Some b \<and> breeds abc_house = pre @ b # post
         \<and> (\<forall>x\<in>set pre. dogs_count x < dogs_count b)
         \<and> (\<forall>x\<in>set post. dogs_count x \<le> dogs_count b))"
proof -
  have ne: "breeds abc_house \<noteq> []" by (simp add: abc_house_def)
  have c: "dogs_count breed_A = 2 \<and> dogs_count breed_B = 2 \<and> dogs_count breed_C = 1"
    by (simp add: dogs_count_def breed_A_def breed_B_def breed_C_def)
  have h: "abc_house = \<lparr>breeds = [breed_A, breed_B, breed_C], dogs = dogs abc_house\<rparr>"
    by (simp add: abc_house_def)
  note t = get_common_breed_first_max [of abc_house breed_A breed_B breed_C "dogs abc_house"]
  from t ne have ex: "\<exists>pre b post. get_common_breed abc_house = Some b
         \<and> breeds abc_house = pre @ b # post
         \<and> (\<forall>x\<in>set pre. dogs_count x < dogs_count b)
         \<and> (\<forall>x\<in>set post. dogs_count x \<le> dogs_count b)"
    by blast
  from t c have "get_common_breed \<lparr>breeds = [breed_A, breed_B, breed_C], dogs = dogs abc_house\<rparr>
      = Some breed_A"
    by blast
  then have "get_common_breed abc_house = Some breed_A" using h by metis
  with ne c ex show ?thesis by blast
qed

text \<open>
  Claim C4. With at least one dog, \<^verbatim>\<open>get_common_dog_name\<close> returns a name \<open>n\<close> of the
  dog list that no name outnumbers, and every name that occurs before the first \<open>n\<close>
  occurs strictly less often than \<open>n\<close>: among the most frequent names, the one whose
  first occurrence is earliest. For dogs named Rex, Fido, Rex, Fido it returns Rex.
\<close>

theorem get_common_dog_name_first_max:
  "(dogs self \<noteq> [] \<longrightarrow>
      (\<exists>n pre post. get_common_dog_name self = Inr n
         \<and> map dog_name (dogs self) = pre @ n # post \<and> n \<notin> set pre
         \<and> (\<forall>m\<in>set pre. count_list (map dog_name (dogs self)) m
                          < count_list (map dog_name (dogs self)) n)
         \<and> (\<forall>m. count_list (map dog_name (dogs self)) m
                  \<le> count_list (map dog_name (dogs self)) n)))
   \<and> (map dog_name (dogs self) = [''Rex'', ''Fido'', ''Rex'', ''Fido''] \<longrightarrow>
        get_common_dog_name self = Inr ''Rex'')"
proof (intro conjI impI)
  assume ne: "dogs self \<noteq> []"
  then have "map dog_name (dogs self) \<noteq> []" by simp
  from Counter_max_first [OF this] obtain kv kvs n pre post where
    C: "Counter (map dog_name (dogs self)) = kv # kvs" and n: "n = fst (py_max snd kv kvs)"
    and rest: "map dog_name (dogs self) = pre @ n # post" "n \<notin> set pre"
      "\<forall>m\<in>set pre. count_list (map dog_name (dogs self)) m
                        < count_list (map dog_name (dogs self)) n"
      "\<forall>m. count_list (map dog_name (dogs self)) m
                \<le> count_list (map dog_name (dogs self)) n"
    by blast
  have "get_common_dog_name self = Inr n"
    using ne C n by (simp add: get_common_dog_name_def most_common_1_def)
  with rest show "\<exists>n pre post. get_common_dog_name self = Inr n
         \<and> map dog_name (dogs self) = pre @ n # post \<and> n \<notin> set pre
         \<and> (\<forall>m\<in>set pre. count_list (map dog_name (dogs self)) m
                          < count_list (map dog_name (dogs self)) n)
         \<and> (\<forall>m. count_list (map dog_name (dogs self)) m
                  \<le> count_list (map dog_name (dogs self)) n)"
    by blast
next
  assume names: "map dog_name (dogs self) = [''Rex'', ''Fido'', ''Rex'', ''Fido'']"
  then have "dogs self \<noteq> []" by auto
  then show "get_common_dog_name self = Inr ''Rex''"
    by (simp add: get_common_dog_name_def names Counter_def most_common_1_def py_max_def)
qed

theorem get_common_dog_name_first_max_witness:
  "dogs rex_fido_house \<noteq> []
   \<and> map dog_name (dogs rex_fido_house) = [''Rex'', ''Fido'', ''Rex'', ''Fido'']
   \<and> get_common_dog_name rex_fido_house = Inr ''Rex''
   \<and> (\<exists>n pre post. get_common_dog_name rex_fido_house = Inr n
         \<and> map dog_name (dogs rex_fido_house) = pre @ n # post \<and> n \<notin> set pre
         \<and> (\<forall>m\<in>set pre. count_list (map dog_name (dogs rex_fido_house)) m
                          < count_list (map dog_name (dogs rex_fido_house)) n)
         \<and> (\<forall>m. count_list (map dog_name (dogs rex_fido_house)) m
                  \<le> count_list (map dog_name (dogs rex_fido_house)) n))"
proof -
  have ne: "dogs rex_fido_house \<noteq> []" by (simp add: rex_fido_house_def)
  have names: "map dog_name (dogs rex_fido_house) = [''Rex'', ''Fido'', ''Rex'', ''Fido'']"
    by (simp add: rex_fido_house_def Dog_def)
  from get_common_dog_name_first_max [of rex_fido_house] ne names
  show ?thesis by blast
qed

text \<open>
  Claim C5. \<^verbatim>\<open>get_data\<close> keeps \<^verbatim>\<open>get_total_dogs()\<close> equal to the sum of the breeds'
  \<^verbatim>\<open>dogs_count()\<close>: if the two agree before it is called, as they do on a fresh
  \<^verbatim>\<open>DogHouse\<close>, they agree on the aggregate it returns with.
\<close>

theorem total_dogs_is_sum_of_counts:
  assumes "get_total_dogs self = sum_list (map dogs_count (breeds self))"
    and "get_data get base token self s = Some (self', s')"
  shows "get_total_dogs self' = sum_list (map dogs_count (breeds self'))"
proof -
  have "total_agrees self" using assms(1) by (simp add: total_agrees_def)
  with total_agrees_add_breed_data total_agrees_add_dog_data assms(2)
  have "total_agrees self'" by (rule get_data_invariant)
  then show ?thesis by (simp add: total_agrees_def)
qed

theorem total_dogs_is_sum_of_counts_witness:
  "get_total_dogs DogHouse = sum_list (map dogs_count (breeds DogHouse))
   \<and> get_data (script_get kennel_pages) ''B'' ''t'' DogHouse start = Some (kennel, kennel_io)
   \<and> get_total_dogs kennel = sum_list (map dogs_count (breeds kennel))
   \<and> get_total_dogs kennel = 3"
proof -
  have fresh: "get_total_dogs DogHouse = sum_list (map dogs_count (breeds DogHouse))"
    by (simp add: DogHouse_def get_total_dogs_def)
  have run: "get_data (script_get kennel_pages) ''B'' ''t'' DogHouse start
      = Some (kennel, kennel_io)"
    by code_simp
  have 3: "get_total_dogs kennel = 3" by (simp add: get_total_dogs_def kennel_def)
  show ?thesis
    by (intro conjI) (rule fresh, rule run, rule total_dogs_is_sum_of_counts [OF fresh run],
      rule 3)
qed

text \<open>
  Claim C6. A dog record whose breed id is the id of no loaded breed changes nothing: the
  step of the dog loader returns the aggregate as it was and there is no dog for the
  record, and a page gives the same aggregate with and without such a record; the step
  has no error to raise. A record whose breed id is that of a loaded breed makes one new
  \<^verbatim>\<open>Dog\<close>, which is appended to the aggregate's dog list and to the end of the dog list
  of the first breed with that id. On a finite chain of pages \<^verbatim>\<open>_get_dogs_data\<close> returns
  with every record treated so, in order: the dog list has grown by the dogs of the
  records with a loaded breed, the dog list of each breed that is the first with its id
  has grown by those of them that have its id, and the other breeds are as they were. So
  a record of an unknown breed counts neither in \<^verbatim>\<open>get_total_dogs()\<close> nor in any
  \<^verbatim>\<open>dogs_count()\<close>.
\<close>

theorem dog_loader_drops_unmatched:
  "((\<forall>b\<in>set (breeds self). Some (breed_id b) \<noteq> item_breed r) \<longrightarrow>
       add_dog_data self r = self
       \<and> foldl add_dog_data self (xs @ r # ys) = foldl add_dog_data self (xs @ ys)
       \<and> dog_of (breeds self) r = None)
   \<and> (\<forall>pre b post.
         breeds self = pre @ b # post
         \<and> (\<forall>x\<in>set pre. Some (breed_id x) \<noteq> item_breed r)
         \<and> Some (breed_id b) = item_breed r \<longrightarrow>
         add_dog_data self r =
           \<lparr>breeds = pre @ b\<lparr>breed_dogs := breed_dogs b
                              @ [Dog (item_id r) (item_name r) (breed_id b)]\<rparr> # post,
            dogs = dogs self @ [Dog (item_id r) (item_name r) (breed_id b)]\<rparr>
         \<and> dog_of (breeds self) r = Some (Dog (item_id r) (item_name r) (breed_id b)))
   \<and> (serves get token (Some (base @ ''/api/v1/dogs/'')) (world s) pages \<longrightarrow>
        (\<exists>self' s'. get_dogs_data get base token self s = Some (self', s')
           \<and> self' = foldl add_dog_data self (concat (map results_or_empty pages))
           \<and> dogs self' = dogs self
                @ List.map_filter (dog_of (breeds self)) (concat (map results_or_empty pages))
           \<and> length (breeds self') = length (breeds self)
           \<and> (\<forall>i<length (breeds self).
                 breeds self' ! i =
                   (if \<forall>j<i. breed_id (breeds self ! j) \<noteq> breed_id (breeds self ! i)
                    then (breeds self ! i)\<lparr>breed_dogs := breed_dogs (breeds self ! i)
                           @ filter (\<lambda>d. dog_breed d = breed_id (breeds self ! i))
                               (List.map_filter (dog_of (breeds self))
                                  (concat (map results_or_empty pages)))\<rparr>
                    else breeds self ! i))))"
proof (intro conjI impI allI)
  assume u: "\<forall>b\<in>set (breeds self). Some (breed_id b) \<noteq> item_breed r"
  then show "add_dog_data self r = self" by (rule add_dog_data_unmatched)
  from u show "foldl add_dog_data self (xs @ r # ys) = foldl add_dog_data self (xs @ ys)"
    by (rule foldl_add_dog_data_drop)
  from u show "dog_of (breeds self) r = None" by (simp add: dog_of_char)
next
  fix pre b post
  assume m: "breeds self = pre @ b # post
         \<and> (\<forall>x\<in>set pre. Some (breed_id x) \<noteq> item_breed r)
         \<and> Some (breed_id b) = item_breed r"
  then have "add_dog_data self r =
      \<lparr>breeds = pre @ add_dog b (Dog (item_id r) (item_name r) (breed_id b)) # post,
       dogs = dogs self @ [Dog (item_id r) (item_name r) (breed_id b)]\<rparr>"
    using add_dog_data_matched [of self pre b post r] by blast
  then show "add_dog_data self r =
           \<lparr>breeds = pre @ b\<lparr>breed_dogs := breed_dogs b
                              @ [Dog (item_id r) (item_name r) (breed_id b)]\<rparr> # post,
            dogs = dogs self @ [Dog (item_id r) (item_name r) (breed_id b)]\<rparr>"
    by (simp add: add_dog_def)
  have "find_breed (item_breed r) (breeds self) = Some b"
    using m find_breed_Some [of "item_breed r" "breeds self" b] by blast
  then show "dog_of (breeds self) r = Some (Dog (item_id r) (item_name r) (breed_id b))"
    by (simp add: dog_of_def)
next
  assume "serves get token (Some (base @ ''/api/v1/dogs/'')) (world s) pages"
  from serves_dogs_loop [OF this, of self] obtain s' where
    run: "get_dogs_data get base token self s =
      Some (foldl add_dog_data self (concat (map results_or_empty pages)), s')"
    unfolding get_dogs_data_def by blast
  note b = breeds_foldl_add_dog_data [of self "concat (map results_or_empty pages)"]
  show "\<exists>self' s'. get_dogs_data get base token self s = Some (self', s')
           \<and> self' = foldl add_dog_data self (concat (map results_or_empty pages))
           \<and> dogs self' = dogs self
                @ List.map_filter (dog_of (breeds self)) (concat (map results_or_empty pages))
           \<and> length (breeds self') = length (breeds self)
           \<and> (\<forall>i<length (breeds self).
                 breeds self' ! i =
                   (if \<forall>j<i. breed_id (breeds self ! j) \<noteq> breed_id (breeds self ! i)
                    then (breeds self ! i)\<lparr>breed_dogs := breed_dogs (breeds self ! i)
                           @ filter (\<lambda>d. dog_breed d = breed_id (breeds self ! i))
                               (List.map_filter (dog_of (breeds self))
                                  (concat (map results_or_empty pages)))\<rparr>
                    else breeds self ! i))"
    by (intro exI conjI) (rule run, rule refl, rule dogs_foldl_add_dog_data,
      rule conjunct1 [OF b], rule conjunct2 [OF b])
qed

theorem dog_loader_drops_unmatched_witness:
  "list_all (\<lambda>b. Some (breed_id b) \<noteq> item_breed stray) (breeds abc_house)
   \<and> add_dog_data abc_house stray = abc_house
   \<and> foldl add_dog_data abc_house ([newcomer] @ stray # [newcomer])
       = foldl add_dog_data abc_house ([newcomer] @ [newcomer])
   \<and> dog_of (breeds abc_house) stray = None
   \<and> breeds abc_house = [breed_A] @ breed_B # [breed_C]
   \<and> list_all (\<lambda>x. Some (breed_id x) \<noteq> item_breed newcomer) [breed_A]
   \<and> Some (breed_id breed_B) = item_breed newcomer
   \<and> add_dog_data abc_house newcomer =
        \<lparr>breeds = [breed_A] @ breed_B\<lparr>breed_dogs := breed_dogs breed_B @ [Dog 6 ''Rex'' 2]\<rparr>
                    # [breed_C],
         dogs = dogs abc_house @ [Dog 6 ''Rex'' 2]\<rparr>
   \<and> dog_of (breeds abc_house) newcomer = Some (Dog 6 ''Rex'' 2)
   \<and> serves (script_get visit_pages) ''t'' (Some (''B'' @ ''/api/v1/dogs/'')) (world start)
        visit_pages
   \<and> (\<exists>self' s'. get_dogs_data (script_get visit_pages) ''B'' ''t'' abc_house start
                     = Some (self', s')
         \<and> dogs self' = dogs abc_house @ [Dog 6 ''Rex'' 2]
         \<and> map breed_dogs (breeds self')
             = [breed_dogs breed_A, breed_dogs breed_B @ [Dog 6 ''Rex'' 2], breed_dogs breed_C]
         \<and> get_total_dogs self' = 6
         \<and> map dogs_count (breeds self') = [2, 3, 1])"
proof -
  have u: "\<forall>b\<in>set (breeds abc_house). Some (breed_id b) \<noteq> item_breed stray"
    by (simp add: abc_house_def breed_A_def breed_B_def breed_C_def stray_def)
  have bs: "breeds abc_house = [breed_A] @ breed_B # [breed_C]" by (simp add: abc_house_def)
  have pre: "\<forall>x\<in>set [breed_A]. Some (breed_id x) \<noteq> item_breed newcomer"
    by (simp add: breed_A_def newcomer_def)
  have b: "Some (breed_id breed_B) = item_breed newcomer"
    by (simp add: breed_B_def newcomer_def)
  have sv: "serves (script_get visit_pages) ''t'' (Some (''B'' @ ''/api/v1/dogs/''))
      (world start) visit_pages"
    by (simp add: visit_pages_def script_get_def start_def truthy_def)
  note t = dog_loader_drops_unmatched [of abc_house stray "[newcomer]" "[newcomer]"]
  note t' = dog_loader_drops_unmatched
    [of abc_house newcomer _ _ "script_get visit_pages" "''t''" "''B''" start visit_pages]
  have 1: "add_dog_data abc_house stray = abc_house
       \<and> foldl add_dog_data abc_house ([newcomer] @ stray # [newcomer])
           = foldl add_dog_data abc_house ([newcomer] @ [newcomer])
       \<and> dog_of (breeds abc_house) stray = None"
    by (rule mp [OF conjunct1 [OF t] u])
  have "add_dog_data abc_house newcomer =
        \<lparr>breeds = [breed_A] @ breed_B\<lparr>breed_dogs := breed_dogs breed_B
            @ [Dog (item_id newcomer) (item_name newcomer) (breed_id breed_B)]\<rparr> # [breed_C],
         dogs = dogs abc_house
            @ [Dog (item_id newcomer) (item_name newcomer) (breed_id breed_B)]\<rparr>
       \<and> dog_of (breeds abc_house) newcomer
           = Some (Dog (item_id newcomer) (item_name newcomer) (breed_id breed_B))"
    using conjunct1 [OF conjunct2 [OF t']] bs pre b by blast
  then have 2: "add_dog_data abc_house newcomer =
        \<lparr>breeds = [breed_A] @ breed_B\<lparr>breed_dogs := breed_dogs breed_B @ [Dog 6 ''Rex'' 2]\<rparr>
                    # [breed_C],
         dogs = dogs abc_house @ [Dog 6 ''Rex'' 2]\<rparr>
       \<and> dog_of (breeds abc_house) newcomer = Some (Dog 6 ''Rex'' 2)"
    by (simp add: newcomer_def breed_B_def)
  from mp [OF conjunct2 [OF conjunct2 [OF t']] sv] obtain self' s' where
    run: "get_dogs_data (script_get visit_pages) ''B'' ''t'' abc_house start = Some (self', s')"
    and f: "self' = foldl add_dog_data abc_house (concat (map results_or_empty visit_pages))"
    by blast
  have recs: "concat (map results_or_empty visit_pages) = [newcomer, stray]"
    by (simp add: visit_pages_def results_or_empty_def)
  have "self' = add_dog_data (add_dog_data abc_house newcomer) stray"
    unfolding f recs by simp
  also have "\<dots> = \<lparr>breeds = [breed_A, breed_B\<lparr>breed_dogs := breed_dogs breed_B @ [Dog 6 ''Rex'' 2]\<rparr>,
                      breed_C],
         dogs = dogs abc_house @ [Dog 6 ''Rex'' 2]\<rparr>"
    unfolding conjunct1 [OF 2]
    by (simp add: add_dog_data_def find_breed_def stray_def breed_A_def breed_B_def breed_C_def)
  finally have self': "self' = \<lparr>breeds = [breed_A,
      breed_B\<lparr>breed_dogs := breed_dogs breed_B @ [Dog 6 ''Rex'' 2]\<rparr>, breed_C],
         dogs = dogs abc_house @ [Dog 6 ''Rex'' 2]\<rparr>" .
  have 3: "\<exists>self' s'. get_dogs_data (script_get visit_pages) ''B'' ''t'' abc_house start
                     = Some (self', s')
         \<and> dogs self' = dogs abc_house @ [Dog 6 ''Rex'' 2]
         \<and> map breed_dogs (breeds self')
             = [breed_dogs breed_A, breed_dogs breed_B @ [Dog 6 ''Rex'' 2], breed_dogs breed_C]
         \<and> get_total_dogs self' = 6
         \<and> map dogs_count (breeds self') = [2, 3, 1]"
    using run unfolding self'
    by (simp add: get_total_dogs_def dogs_count_def abc_house_def breed_A_def breed_B_def
        breed_C_def)
  from u have u': "list_all (\<lambda>b. Some (breed_id b) \<noteq> item_breed stray) (breeds abc_house)"
    by (simp add: list_all_iff)
  from pre have pre': "list_all (\<lambda>x. Some (breed_id x) \<noteq> item_breed newcomer) [breed_A]"
    by simp
  show ?thesis
    by (intro conjI) (rule u', rule conjunct1 [OF 1], rule conjunct1 [OF conjunct2 [OF 1]],
      rule conjunct2 [OF conjunct2 [OF 1]], rule bs, rule pre', rule b, rule conjunct1 [OF 2],
      rule conjunct2 [OF 2], rule sv, rule 3)
qed

text \<open>
  Claim C7, as the code has it. When the transport hands out a finite chain of pages from
  the starting URL, each loop returns after exactly one request per page; a page is
  followed by another request exactly when its \<^verbatim>\<open>next\<close> is a non-empty string (the loop
  stops on an absent or null \<^verbatim>\<open>next\<close>, and on an empty one). The breed loop appends one
  \<^verbatim>\<open>Breed\<close> for every record of every page, in order. The dog loop appends one \<^verbatim>\<open>Dog\<close>
  for every record whose breed id is that of a loaded breed, in order, and nothing for
  the other records: \<open>dog_loader_loses_record\<close> is a page of one record after which the
  dog list is still empty.
\<close>

theorem pagination_complete:
  assumes "serves get token url (world s) pages"
  shows "(\<exists>s'. breeds_loop get token url self s =
            Some (self\<lparr>breeds := breeds self @ map (\<lambda>r. Breed (item_id r) (item_name r))
                     (concat (map results_or_empty pages))\<rparr>, s')
           \<and> length (requests s') = length (requests s) + length pages)
     \<and> (\<exists>self' s'. dogs_loop get token url self s = Some (self', s')
           \<and> dogs self' = dogs self @ List.map_filter (dog_of (breeds self))
                 (concat (map results_or_empty pages))
           \<and> length (requests s') = length (requests s) + length pages)
     \<and> (\<forall>i<length pages. truthy (nxt (pages ! i)) \<longleftrightarrow> Suc i < length pages)"
proof (intro conjI)
  show "\<exists>s'. breeds_loop get token url self s =
            Some (self\<lparr>breeds := breeds self @ map (\<lambda>r. Breed (item_id r) (item_name r))
                     (concat (map results_or_empty pages))\<rparr>, s')
           \<and> length (requests s') = length (requests s) + length pages"
    using serves_breeds_loop [OF assms, of self] unfolding foldl_add_breed_data .
  obtain s' where "dogs_loop get token url self s =
             Some (foldl add_dog_data self (concat (map results_or_empty pages)), s')"
      "length (requests s') = length (requests s) + length pages"
    using serves_dogs_loop [OF assms, of self] by blast
  then show "\<exists>self' s'. dogs_loop get token url self s = Some (self', s')
           \<and> dogs self' = dogs self @ List.map_filter (dog_of (breeds self))
                 (concat (map results_or_empty pages))
           \<and> length (requests s') = length (requests s) + length pages"
    using dogs_foldl_add_dog_data by blast
  show "\<forall>i<length pages. truthy (nxt (pages ! i)) \<longleftrightarrow> Suc i < length pages"
    using assms by (rule serves_next)
qed

theorem pagination_complete_witness:
  "serves (script_get three_pages) ''t'' (Some ''page1'') (world start) three_pages
   \<and> length (concat (map results_or_empty three_pages)) = 237
   \<and> (\<exists>self' s'. breeds_loop (script_get three_pages) ''t'' (Some ''page1'') DogHouse start
                     = Some (self', s')
         \<and> length (breeds self') = 237 \<and> length (requests s') = 3)
   \<and> (\<exists>self' s'. dogs_loop (script_get three_pages) ''t'' (Some ''page1'')
                     \<lparr>breeds = [Breed 1 ''Kiltro''], dogs = []\<rparr> start
                     = Some (self', s')
         \<and> length (dogs self') = 237 \<and> length (requests s') = 3)"
proof -
  have h: "serves (script_get three_pages) ''t'' (Some ''page1'') (world start) three_pages"
    by (simp add: three_pages_def script_get_def start_def truthy_def)
  have recs: "concat (map results_or_empty three_pages)
      = replicate 100 pup @ replicate 100 pup @ replicate 37 pup"
    by (simp add: three_pages_def results_or_empty_def)
  have n: "length (concat (map results_or_empty three_pages)) = 237"
    unfolding recs by simp
  have pup: "dog_of [Breed 1 ''Kiltro''] pup = Some (Dog 1 ''Kiltro'' 1)"
    by (simp add: dog_of_def find_breed_def Breed_def pup_def)
  have dogs: "length (List.map_filter (dog_of [Breed 1 ''Kiltro''])
      (concat (map results_or_empty three_pages))) = 237"
    unfolding recs by (simp add: List.map_filter_def pup)
  note b = conjunct1 [OF pagination_complete [OF h, of DogHouse]]
  note d = conjunct1 [OF conjunct2
    [OF pagination_complete [OF h, of "\<lparr>breeds = [Breed 1 ''Kiltro''], dogs = []\<rparr>"]]]
  have 1: "\<exists>self' s'. breeds_loop (script_get three_pages) ''t'' (Some ''page1'') DogHouse start
                     = Some (self', s')
         \<and> length (breeds self') = 237 \<and> length (requests s') = 3"
    using b n by (auto simp: DogHouse_def start_def three_pages_def)
  have 2: "\<exists>self' s'. dogs_loop (script_get three_pages) ''t'' (Some ''page1'')
                     \<lparr>breeds = [Breed 1 ''Kiltro''], dogs = []\<rparr> start
                     = Some (self', s')
         \<and> length (dogs self') = 237 \<and> length (requests s') = 3"
    using d dogs by (auto simp: start_def three_pages_def)
  show ?thesis
    by (intro conjI) (rule h, rule n, rule 1, rule 2)
qed

theorem dog_loader_loses_record:
  "serves (script_get stray_pages) ''t'' (Some ''B/api/v1/dogs/'') (world start) stray_pages
   \<and> concat (map results_or_empty stray_pages) = [stray]
   \<and> get_dogs_data (script_get stray_pages) ''B'' ''t'' DogHouse start
       = Some (DogHouse, \<lparr>world = 1, requests = [''B/api/v1/dogs/'']\<rparr>)
   \<and> dogs DogHouse = []"
proof (intro conjI)
  show "serves (script_get stray_pages) ''t'' (Some ''B/api/v1/dogs/'') (world start) stray_pages"
    by (simp add: stray_pages_def script_get_def start_def truthy_def)
  show "concat (map results_or_empty stray_pages) = [stray]"
    by (simp add: stray_pages_def results_or_empty_def)
  show "get_dogs_data (script_get stray_pages) ''B'' ''t'' DogHouse start
       = Some (DogHouse, \<lparr>world = 1, requests = [''B/api/v1/dogs/'']\<rparr>)"
    by code_simp
  show "dogs DogHouse = []" by (simp add: DogHouse_def)
qed

text \<open>
  Claim C8. On a fresh \<^verbatim>\<open>DogHouse\<close>, with no breeds and no dogs, both totals are 0, the
  most common dog name is the empty string and the most common breed is \<^verbatim>\<open>None\<close>.
\<close>

theorem empty_aggregate_statistics:
  "get_total_breeds DogHouse = 0 \<and> get_total_dogs DogHouse = 0
   \<and> get_common_dog_name DogHouse = Inr [] \<and> get_common_breed DogHouse = None"
  by (simp add: get_total_breeds_def get_total_dogs_def get_common_dog_name_def
      get_common_breed_def DogHouse_def)



text \<open>
  Claim C10. \<^verbatim>\<open>send_data\<close> does not read its parameter \<^verbatim>\<open>data\<close>: with any two values
  for it, of any types, the outcome is the same. When there is a most common breed, what
  is posted to \<^verbatim>\<open>/api/v1/answer/\<close> is the dictionary of the four getters:
  \<^verbatim>\<open>totalBreeds\<close>, \<^verbatim>\<open>totalDogs\<close>, the name of the common breed and the common dog name.
\<close>

theorem send_data_ignores_data:
  "send_data post base d1 token self w = send_data post base d2 token self w
   \<and> (\<forall>b. get_common_breed self = Some b \<longrightarrow>
         (\<exists>cn. get_common_dog_name self = Inr cn
            \<and> send_data post base d1 token self w =
                 Inr (post w (base @ ''/api/v1/answer/'')
                        \<lparr>totalBreeds = get_total_breeds self,
                         totalDogs = get_total_dogs self,
                         commonBreed = breed_name b,
                         commonDogName = cn\<rparr> token)))"
proof (intro conjI allI impI)
  show "send_data post base d1 token self w = send_data post base d2 token self w"
    by (simp add: send_data_def)
next
  fix b assume b: "get_common_breed self = Some b"
  obtain cn where cn: "get_common_dog_name self = Inr cn"
    using get_common_dog_name_no_error [of self] by (cases "get_common_dog_name self") auto
  have "send_data post base d1 token self w =
      Inr (post w (base @ ''/api/v1/answer/'')
             \<lparr>totalBreeds = get_total_breeds self, totalDogs = get_total_dogs self,
              commonBreed = breed_name b, commonDogName = cn\<rparr> token)"
    by (simp add: send_data_def b cn name_of_def)
  with cn show "\<exists>cn. get_common_dog_name self = Inr cn
            \<and> send_data post base d1 token self w =
                 Inr (post w (base @ ''/api/v1/answer/'')
                        \<lparr>totalBreeds = get_total_breeds self,
                         totalDogs = get_total_dogs self,
                         commonBreed = breed_name b,
                         commonDogName = cn\<rparr> token)"
    by blast
qed

theorem send_data_ignores_data_witness:
  "get_common_breed abc_house = Some breed_A
   \<and> send_data echo_post ''B'' [(''total_dogs'', 0::int)] ''t'' abc_house 0
       = send_data echo_post ''B'' True ''t'' abc_house 0
   \<and> send_data echo_post ''B'' [(''total_dogs'', 0::int)] ''t'' abc_house 0
       = Inr (\<lparr>totalBreeds = 3, totalDogs = 5, commonBreed = ''A'',
                commonDogName = ''Rex''\<rparr>, 1)"
proof -
  have b: "get_common_breed abc_house = Some breed_A" by code_simp
  have cn: "get_common_dog_name abc_house = Inr ''Rex''" by code_simp
  note t = send_data_ignores_data
    [of echo_post "''B''" "[(''total_dogs'', 0::int)]" "''t''" abc_house 0 True]
  from conjunct2 [OF t] b cn
  have "send_data echo_post ''B'' [(''total_dogs'', 0::int)] ''t'' abc_house 0 =
      Inr (echo_post 0 (''B'' @ ''/api/v1/answer/'')
             \<lparr>totalBreeds = get_total_breeds abc_house, totalDogs = get_total_dogs abc_house,
              commonBreed = breed_name breed_A, commonDogName = ''Rex''\<rparr> ''t'')"
    by auto
  then have 2: "send_data echo_post ''B'' [(''total_dogs'', 0::int)] ''t'' abc_house 0
       = Inr (\<lparr>totalBreeds = 3, totalDogs = 5, commonBreed = ''A'',
                commonDogName = ''Rex''\<rparr>, 1)"
    by (simp add: echo_post_def get_total_breeds_def get_total_dogs_def abc_house_def
        breed_A_def)
  show ?thesis
    by (intro conjI) (rule b, rule conjunct1 [OF t], rule 2)
qed

end
